theory Spec2Isabelle
  imports Complex_Main "HOL-Library.Word"
begin

section \<open>Conventions of the embedding\<close>

text \<open>
  Python floats are embedded as \<^typ>\<open>real\<close>. The scoring formulas are read as exact
  arithmetic; the division that computes a coverage is rounded to the nearest double. A Python \<open>dict\<close> is an association list in insertion
  order with one entry per key; assignment to a key (\<open>d[k] = v\<close>) keeps the position of an
  existing key and appends a new one. Exceptions are values of \<open>py_error\<close>, returned on the
  left of a sum.
\<close>

datatype py_error = ValueError | ZeroDivisionError | RuntimeError

type_synonym ('k, 'v) dict = "('k \<times> 'v) list"

fun dict_set :: "('k, 'v) dict \<Rightarrow> 'k \<Rightarrow> 'v \<Rightarrow> ('k, 'v) dict" where
  "dict_set [] k v = [(k, v)]"
| "dict_set ((k', v') # d) k v = (if k' = k then (k, v) # d else (k', v') # dict_set d k v)"

text \<open>A dict comprehension \<open>{k: v for ...}\<close>: the items are stored one after the other.\<close>

fun dict_of_items :: "('k, 'v) dict \<Rightarrow> ('k \<times> 'v) list \<Rightarrow> ('k, 'v) dict" where
  "dict_of_items d [] = d"
| "dict_of_items d ((k, v) # items) = dict_of_items (dict_set d k v) items"

text \<open>\<open>d.get(k, default)\<close>\<close>

definition dict_get :: "('k, 'v) dict \<Rightarrow> 'k \<Rightarrow> 'v \<Rightarrow> 'v" where
  "dict_get d k dflt = (case map_of d k of None \<Rightarrow> dflt | Some v \<Rightarrow> v)"

section \<open>Taxonomies (ml\_pipeline/config.py)\<close>

definition PIXEL_VALUE_TO_LABEL :: "(nat, string) dict" where
  "PIXEL_VALUE_TO_LABEL =
     [(0, ''background''),
      (11, ''liver''),
      (12, ''gallbladder''),
      (21, ''cystic_duct''),
      (22, ''cystic_artery''),
      (23, ''common_bile_duct''),
      (31, ''grasper''),
      (32, ''hook''),
      (50, ''scissors'')]"

definition PHASE_DEFINITIONS :: "(string \<times> real) list" where
  "PHASE_DEFINITIONS =
     [(''pre_op'', 0.10),
      (''port_setup'', 0.10),
      (''exposure'', 0.20),
      (''critical_dissection'', 0.35),
      (''clip_and_divide'', 0.15),
      (''closure'', 0.10)]"

section \<open>Scoring heuristic (ml\_pipeline/ranking.py)\<close>

definition PHASE_WEIGHTS :: "(string, real) dict" where
  "PHASE_WEIGHTS =
     [(''pre_op'', 0.2),
      (''port_setup'', 0.4),
      (''exposure'', 0.6),
      (''critical_dissection'', 0.9),
      (''clip_and_divide'', 1.0),
      (''closure'', 0.5)]"

definition OBJECT_PRIORITIES :: "(string, real) dict" where
  "OBJECT_PRIORITIES =
     [(''cystic_duct'', 1.0),
      (''cystic_artery'', 1.0),
      (''common_bile_duct'', 0.9),
      (''grasper'', 0.6),
      (''hook'', 0.5),
      (''scissors'', 0.7),
      (''gallbladder'', 0.8),
      (''liver'', 0.4)]"

text \<open>The loop of \<open>calculate_phase_score\<close> over \<open>phase_probabilities.items()\<close>, with its
  accumulator \<open>score\<close>.\<close>

fun phase_score_loop :: "(string \<times> real) list \<Rightarrow> real \<Rightarrow> real" where
  "phase_score_loop [] score = score"
| "phase_score_loop ((phase, prob) # rest) score =
     (let weight = dict_get PHASE_WEIGHTS phase 0.3
      in phase_score_loop rest (score + prob * weight))"

definition calculate_phase_score :: "(string, real) dict \<Rightarrow> real" where
  "calculate_phase_score phase_probabilities = min (phase_score_loop phase_probabilities 0.0) 1.0"

text \<open>The loop of \<open>calculate_object_score\<close> over the iterable of labels, with its
  accumulator \<open>total\<close>.\<close>

fun object_score_loop :: "string list \<Rightarrow> real \<Rightarrow> real" where
  "object_score_loop [] total_acc = total_acc"
| "object_score_loop (obj # rest) total_acc =
     object_score_loop rest (total_acc + dict_get OBJECT_PRIORITIES obj 0.2)"

definition calculate_object_score :: "string list \<Rightarrow> real" where
  "calculate_object_score objects = min (object_score_loop objects 0.0) 3.0 / 3.0"

definition compute_importance :: "real \<Rightarrow> real \<Rightarrow> real \<Rightarrow> real \<Rightarrow> real" where
  "compute_importance quality_score phase_score object_score ai_bonus =
     (let normalized_quality = quality_score / 100.0;
          combined = 0.4 * normalized_quality + 0.35 * phase_score + 0.25 * object_score + ai_bonus
      in max 0.0 (min 1.0 combined) * 100.0)"

text \<open>The default value of the parameter \<open>ai_bonus\<close>, used by every call that passes three
  arguments.\<close>

definition ai_bonus_default :: real where
  "ai_bonus_default = 0.1"

definition empty_phase_probabilities :: "(string, real) dict" where
  "empty_phase_probabilities =
     (let phases = map fst PHASE_DEFINITIONS;
          baseline = 1.0 / real (length phases)
      in dict_of_items [] (map (\<lambda>phase. (phase, baseline)) phases))"

section \<open>Frame analysis (ml\_pipeline/inference\_service.py)\<close>

text \<open>\<open>self.label_list = list(PIXEL_VALUE_TO_LABEL.values())\<close>\<close>

definition label_list :: "string list" where
  "label_list = map snd PIXEL_VALUE_TO_LABEL"

subsection \<open>Backend selection\<close>

text \<open>
  What the constructor reads from outside the program is gathered in an environment: which
  paths exist on disk, whether the import of \<open>DPTSegmentationModel\<close> succeeded, and the outcome
  of building the EndoViT network and loading its checkpoint (an exception or success).
  \<open>UNetSegmenter.__init__\<close> only composes layers and has no failing path.
\<close>

record environment =
  path_exists :: "string \<Rightarrow> bool"
  dpt_available :: bool
  endovit_network_init :: "string \<Rightarrow> py_error + unit"

datatype segmentation_network = EndoVITSemanticSegmenter | UNetSegmenter

datatype warning = WARN_endovit_init_failed py_error | WARN_dependencies_missing

record training_config =
  endovit_segmentation_checkpoint :: "string option"
  image_size :: nat

record analyzer =
  config :: training_config
  segmentation_backend :: string
  printed :: "warning list"

definition is_endovit_supported :: "environment \<Rightarrow> bool" where
  "is_endovit_supported env = dpt_available env"

text \<open>\<open>EndoVITSemanticSegmenter.__init__\<close> (models/endovit\_segmentation.py)\<close>

definition EndoVITSemanticSegmenter_init ::
  "environment \<Rightarrow> nat \<Rightarrow> string \<Rightarrow> py_error + segmentation_network" where
  "EndoVITSemanticSegmenter_init env num_classes checkpoint_path =
     (if \<not> dpt_available env then Inl RuntimeError
      else case endovit_network_init env checkpoint_path of
             Inl exc \<Rightarrow> Inl exc
           | Inr _ \<Rightarrow> Inr EndoVITSemanticSegmenter)"

text \<open>The last three lines of \<open>_build_segmentation_model\<close>: the default backend.\<close>

definition build_unet :: "analyzer \<Rightarrow> nat \<Rightarrow> py_error + segmentation_network \<times> analyzer" where
  "build_unet self num_classes = Inr (UNetSegmenter, self\<lparr>segmentation_backend := ''unet''\<rparr>)"

definition build_segmentation_model ::
  "environment \<Rightarrow> analyzer \<Rightarrow> nat \<Rightarrow> py_error + segmentation_network \<times> analyzer" where
  "build_segmentation_model env self num_classes =
     (case endovit_segmentation_checkpoint (config self) of
        None \<Rightarrow> build_unet self num_classes
      | Some checkpoint \<Rightarrow>
          if path_exists env checkpoint \<and> is_endovit_supported env then
            (case EndoVITSemanticSegmenter_init env num_classes checkpoint of
               Inr model \<Rightarrow> Inr (model, self\<lparr>segmentation_backend := ''endovit''\<rparr>)
             | Inl exc \<Rightarrow>
                 build_unet (self\<lparr>printed := printed self @ [WARN_endovit_init_failed exc]\<rparr>)
                   num_classes)
          else if path_exists env checkpoint \<and> \<not> is_endovit_supported env then
            build_unet (self\<lparr>printed := printed self @ [WARN_dependencies_missing]\<rparr>) num_classes
          else build_unet self num_classes)"

text \<open>The part of \<open>SurgicalSceneAnalyzer.__init__\<close> that selects the backend: the identifier
  starts as \<open>"unet"\<close> and the model is built for \<open>len(PIXEL_VALUE_TO_LABEL)\<close> classes.\<close>

definition init_segmentation ::
  "environment \<Rightarrow> training_config \<Rightarrow> py_error + segmentation_network \<times> analyzer" where
  "init_segmentation env cfg =
     build_segmentation_model env
       \<lparr>config = cfg, segmentation_backend = ''unet'', printed = []\<rparr>
       (length PIXEL_VALUE_TO_LABEL)"

subsection \<open>Preprocessing: the shapes of the tensors\<close>

text \<open>
  \<open>preprocess_image\<close> is embedded at the level of tensor shapes, which is what decides whether
  its tensor operations raise. \<open>torch.from_numpy(image).float() / 255.0\<close> keeps the shape of
  the array (of numbers, as a frame is). \<open>permute(2, 0, 1)\<close> needs exactly three dimensions. \<open>F.interpolate\<close> in bilinear
  mode needs a four-dimensional input with non-empty channel and spatial dimensions and a
  positive output size. Subtracting \<open>mean\<close> and dividing by \<open>std\<close>, both of shape
  \<open>(1, 3, 1, 1)\<close>, broadcasts: two sizes are compatible when they are equal or one of them
  is 1, and the result takes the larger.
\<close>

type_synonym shape = "nat list"

definition permute_2_0_1 :: "shape \<Rightarrow> py_error + shape" where
  "permute_2_0_1 s = (case s of [h, w, c] \<Rightarrow> Inr [c, h, w] | _ \<Rightarrow> Inl RuntimeError)"

definition unsqueeze_0 :: "shape \<Rightarrow> shape" where
  "unsqueeze_0 s = 1 # s"

definition interpolate_bilinear :: "shape \<Rightarrow> nat \<times> nat \<Rightarrow> py_error + shape" where
  "interpolate_bilinear s size_hw =
     (case s of
        [n, c, h, w] \<Rightarrow>
          if c = 0 \<or> h = 0 \<or> w = 0 \<or> fst size_hw = 0 \<or> snd size_hw = 0 then Inl RuntimeError
          else Inr [n, c, fst size_hw, snd size_hw]
      | _ \<Rightarrow> Inl RuntimeError)"

fun broadcast_same_rank :: "shape \<Rightarrow> shape \<Rightarrow> py_error + shape" where
  "broadcast_same_rank [] [] = Inr []"
| "broadcast_same_rank (a # as) (b # bs) =
     (if a = b \<or> a = 1 \<or> b = 1 then
        (case broadcast_same_rank as bs of
           Inl e \<Rightarrow> Inl e
         | Inr r \<Rightarrow> Inr ((if a = 1 then b else a) # r))
      else Inl RuntimeError)"
| "broadcast_same_rank _ _ = Inl RuntimeError"

definition preprocess_image :: "training_config \<Rightarrow> shape \<Rightarrow> py_error + shape" where
  "preprocess_image cfg img =
     (case permute_2_0_1 img of
        Inl e \<Rightarrow> Inl e
      | Inr tensor \<Rightarrow>
          (case interpolate_bilinear (unsqueeze_0 tensor) (image_size cfg, image_size cfg) of
             Inl e \<Rightarrow> Inl e
           | Inr tensor \<Rightarrow>
               (case broadcast_same_rank tensor [1, 3, 1, 1] of
                  Inl e \<Rightarrow> Inl e
                | Inr tensor \<Rightarrow> broadcast_same_rank tensor [1, 3, 1, 1])))"

subsection \<open>Phase probabilities and phase label\<close>

definition phase_probabilities_dict :: "real list \<Rightarrow> (string, real) dict" where
  "phase_probabilities_dict probs =
     (let phases = map fst PHASE_DEFINITIONS
      in if length probs \<noteq> length phases then empty_phase_probabilities
         else dict_of_items [] (zip phases probs))"

text \<open>
  \<open>max(d, key=d.get)\<close> visits the keys of \<open>d\<close> in insertion order and compares the values
  stored for them; the running maximum is replaced only by a strictly greater value, and an
  empty dict raises \<open>ValueError\<close>.
\<close>

fun max_loop :: "('k \<times> real) list \<Rightarrow> 'k \<Rightarrow> real \<Rightarrow> 'k" where
  "max_loop [] maxitem maxval = maxitem"
| "max_loop ((item, val) # rest) maxitem maxval =
     (if val > maxval then max_loop rest item val else max_loop rest maxitem maxval)"

definition max_by_get :: "('k, real) dict \<Rightarrow> py_error + 'k" where
  "max_by_get d = (case d of [] \<Rightarrow> Inl ValueError | (item, val) # rest \<Rightarrow> Inr (max_loop rest item val))"

subsection \<open>Object summary\<close>

text \<open>A segmentation mask is a two-dimensional array of class indices, given by its rows.\<close>

type_synonym mask = "int list list"

definition mask_size :: "mask \<Rightarrow> nat" where
  "mask_size seg_mask = length (concat seg_mask)"

text \<open>\<open>int((seg_mask == class_idx).sum())\<close>\<close>

definition count_equal :: "mask \<Rightarrow> nat \<Rightarrow> nat" where
  "count_equal seg_mask class_idx = length (filter (\<lambda>p. p = int class_idx) (concat seg_mask))"

fun areas_loop :: "mask \<Rightarrow> (nat \<times> string) list \<Rightarrow> (string, nat) dict \<Rightarrow> (string, nat) dict" where
  "areas_loop seg_mask [] areas = areas"
| "areas_loop seg_mask ((class_idx, label) # rest) areas =
     (let count = count_equal seg_mask class_idx
      in if count = 0 \<or> label = ''background'' then areas_loop seg_mask rest areas
         else areas_loop seg_mask rest (dict_set areas label count))"

text \<open>
  \<open>count / total_pixels\<close> divides two Python ints, and the result is a float: the double
  nearest to the quotient, a tie going to the even mantissa. For \<open>0 < c \<le> t\<close> the quotient is
  scaled by the power of two that brings it into \<open>[2 ^ 52, 2 ^ 53)\<close>, rounded to an integer
  mantissa and scaled back; \<open>bit_length\<close> is Python's \<open>int.bit_length\<close>. The sizes of arrays
  are far below the exponent range of doubles, so neither overflow nor underflow occurs.
\<close>

fun bit_length :: "nat \<Rightarrow> nat" where
  "bit_length 0 = 0"
| "bit_length (Suc n) = Suc (bit_length (Suc n div 2))"

definition round_half_even :: "int \<Rightarrow> int \<Rightarrow> int" where
  "round_half_even n t =
     (let d = n div t; r = n mod t
      in if 2 * r < t then d else if t < 2 * r then d + 1 else if even d then d else d + 1)"

definition binary_exponent :: "nat \<Rightarrow> nat \<Rightarrow> nat" where
  "binary_exponent c t =
     (let e0 = 52 + bit_length t - bit_length c
      in if 2 ^ 52 * int t \<le> int c * 2 ^ e0 then e0 else e0 + 1)"

definition truediv :: "nat \<Rightarrow> nat \<Rightarrow> real" where
  "truediv c t =
     (if c = 0 then 0
      else let e = binary_exponent c t
           in real_of_int (round_half_even (int c * 2 ^ e) (int t)) / 2 ^ e)"

text \<open>The generator \<open>(label, count / total_pixels) for label, count in areas.items()\<close>;
  a division by zero raises.\<close>

fun coverage_items :: "(string \<times> nat) list \<Rightarrow> nat \<Rightarrow> py_error + (string \<times> real) list" where
  "coverage_items [] total_pixels = Inr []"
| "coverage_items ((label, count) # rest) total_pixels =
     (if total_pixels = 0 then Inl ZeroDivisionError
      else case coverage_items rest total_pixels of
             Inl e \<Rightarrow> Inl e
           | Inr items \<Rightarrow> Inr ((label, truediv count total_pixels) # items))"

text \<open>
  \<open>sorted(items, key=..., reverse=True)\<close>: Python's sort is stable, and with \<open>reverse=True\<close>
  it reverses the list, sorts it stably in ascending order and reverses the result, so that
  items with equal keys keep their original order.
\<close>

definition sorted_reverse :: "('a \<Rightarrow> real) \<Rightarrow> 'a list \<Rightarrow> 'a list" where
  "sorted_reverse key items = rev (sort_key key (rev items))"

definition summarize_objects :: "mask \<Rightarrow> py_error + (string \<times> real) list" where
  "summarize_objects seg_mask =
     (let total_pixels = mask_size seg_mask;
          areas = areas_loop seg_mask (enumerate 0 label_list) []
      in case coverage_items areas total_pixels of
           Inl e \<Rightarrow> Inl e
         | Inr items \<Rightarrow> Inr (take 5 (sorted_reverse snd items)))"

subsection \<open>The frame record\<close>

record frame_record =
  phase :: string
  phase_probabilities :: "(string, real) dict"
  segmentation_mask :: mask
  detected_objects :: "(string \<times> real) list"
  importance_score :: real
  phase_score :: real
  object_score :: real

text \<open>
  \<open>analyze_frame\<close>, from the results of the two forward passes: the values the networks
  compute depend on their weights, so the arg-max class map \<open>seg_mask\<close> and the softmax vector
  \<open>phase_probs\<close> are arguments. The image \<open>img\<close> is given by its shape. The forward passes
  themselves, which can raise, are part of \<open>analyze_frame_call\<close> below.
\<close>

definition analyze_frame ::
  "training_config \<Rightarrow> shape \<Rightarrow> mask \<Rightarrow> real list \<Rightarrow> real \<Rightarrow> py_error + frame_record" where
  "analyze_frame cfg img seg_mask phase_probs quality_score =
     (case preprocess_image cfg img of
        Inl e \<Rightarrow> Inl e
      | Inr tensor \<Rightarrow>
          (let phase_prob_dict = phase_probabilities_dict phase_probs
           in case max_by_get phase_prob_dict of
                Inl e \<Rightarrow> Inl e
              | Inr phase_label \<Rightarrow>
                  (case summarize_objects seg_mask of
                     Inl e \<Rightarrow> Inl e
                   | Inr detected \<Rightarrow>
                       (let p_score = calculate_phase_score phase_prob_dict;
                            o_score = calculate_object_score (map fst detected);
                            importance =
                              compute_importance quality_score p_score o_score ai_bonus_default
                        in Inr \<lparr>phase = phase_label,
                                phase_probabilities = phase_prob_dict,
                                segmentation_mask = seg_mask,
                                detected_objects = detected,
                                importance_score = importance,
                                phase_score = p_score,
                                object_score = o_score\<rparr>))))"

subsection \<open>The forward passes: the shapes of the tensors\<close>

text \<open>A call that raises ends the computation; otherwise its result is passed on.\<close>

definition bind_result :: "py_error + 'a \<Rightarrow> ('a \<Rightarrow> py_error + 'b) \<Rightarrow> py_error + 'b" where
  "bind_result x f = (case x of Inl e \<Rightarrow> Inl e | Inr v \<Rightarrow> f v)"

text \<open>
  The layers of the networks, at the level of shapes as the preprocessing is. The networks
  are in eval mode, where \<open>BatchNorm2d\<close>, \<open>ReLU\<close> and \<open>Dropout\<close> keep every shape and raise
  nothing. A \<open>Conv2d\<close> with kernel 3 and padding 1, or with kernel 1, keeps height and width
  and needs its number of input channels; \<open>MaxPool2d(2)\<close> halves height and width, rounding
  down, and raises when a halved size is 0; \<open>ConvTranspose2d\<close> with kernel 2 and stride 2
  doubles them; \<open>torch.cat\<close> along dimension 1 adds the channels of tensors of equal batch
  size, height and width.
\<close>

definition conv2d_k3_p1 :: "nat \<Rightarrow> nat \<Rightarrow> shape \<Rightarrow> py_error + shape" where
  "conv2d_k3_p1 in_channels out_channels x =
     (case x of
        [n, c, h, w] \<Rightarrow>
          if c = in_channels \<and> 0 < h \<and> 0 < w then Inr [n, out_channels, h, w]
          else Inl RuntimeError
      | _ \<Rightarrow> Inl RuntimeError)"

definition conv2d_k1 :: "nat \<Rightarrow> nat \<Rightarrow> shape \<Rightarrow> py_error + shape" where
  "conv2d_k1 in_channels out_channels x =
     (case x of
        [n, c, h, w] \<Rightarrow>
          if c = in_channels \<and> 0 < h \<and> 0 < w then Inr [n, out_channels, h, w]
          else Inl RuntimeError
      | _ \<Rightarrow> Inl RuntimeError)"

definition max_pool2d_2 :: "shape \<Rightarrow> py_error + shape" where
  "max_pool2d_2 x =
     (case x of
        [n, c, h, w] \<Rightarrow>
          if h div 2 = 0 \<or> w div 2 = 0 then Inl RuntimeError
          else Inr [n, c, h div 2, w div 2]
      | _ \<Rightarrow> Inl RuntimeError)"

definition conv_transpose2d_k2_s2 :: "nat \<Rightarrow> nat \<Rightarrow> shape \<Rightarrow> py_error + shape" where
  "conv_transpose2d_k2_s2 in_channels out_channels x =
     (case x of
        [n, c, h, w] \<Rightarrow>
          if c = in_channels \<and> 0 < h \<and> 0 < w then Inr [n, out_channels, 2 * h, 2 * w]
          else Inl RuntimeError
      | _ \<Rightarrow> Inl RuntimeError)"

definition cat_dim1 :: "shape \<Rightarrow> shape \<Rightarrow> py_error + shape" where
  "cat_dim1 a b =
     (case (a, b) of
        ([n, c, h, w], [n', c', h', w']) \<Rightarrow>
          if n = n' \<and> h = h' \<and> w = w' then Inr [n, c + c', h, w] else Inl RuntimeError
      | _ \<Rightarrow> Inl RuntimeError)"

text \<open>\<open>x.shape[-2:]\<close>, and \<open>F.interpolate(x, size=..., mode="bilinear")\<close> to such a size.\<close>

definition last_two :: "shape \<Rightarrow> shape" where
  "last_two s = drop (length s - 2) s"

definition interpolate_to :: "shape \<Rightarrow> shape \<Rightarrow> py_error + shape" where
  "interpolate_to x size_hw =
     (case size_hw of [h, w] \<Rightarrow> interpolate_bilinear x (h, w) | _ \<Rightarrow> Inl RuntimeError)"

text \<open>\<open>conv_block\<close>, \<open>DecoderBlock.forward\<close> and \<open>UNetSegmenter.forward\<close>
  (models/segmentation.py).\<close>

definition conv_block :: "nat \<Rightarrow> nat \<Rightarrow> shape \<Rightarrow> py_error + shape" where
  "conv_block in_channels out_channels x =
     bind_result (conv2d_k3_p1 in_channels out_channels x) (conv2d_k3_p1 out_channels out_channels)"

definition DecoderBlock_forward :: "nat \<Rightarrow> nat \<Rightarrow> shape \<Rightarrow> shape \<Rightarrow> py_error + shape" where
  "DecoderBlock_forward in_channels out_channels x skip =
     bind_result (conv_transpose2d_k2_s2 in_channels out_channels x) (\<lambda>x.
     bind_result (if last_two x \<noteq> last_two skip then interpolate_to x (last_two skip) else Inr x) (\<lambda>x.
     bind_result (cat_dim1 skip x) (\<lambda>x.
     conv_block in_channels out_channels x)))"

definition UNetSegmenter_forward :: "nat \<Rightarrow> shape \<Rightarrow> py_error + shape" where
  "UNetSegmenter_forward num_classes x =
     bind_result (conv_block 3 64 x) (\<lambda>s1.
     bind_result (max_pool2d_2 s1) (\<lambda>p1.
     bind_result (conv_block 64 128 p1) (\<lambda>s2.
     bind_result (max_pool2d_2 s2) (\<lambda>p2.
     bind_result (conv_block 128 256 p2) (\<lambda>s3.
     bind_result (max_pool2d_2 s3) (\<lambda>p3.
     bind_result (conv_block 256 512 p3) (\<lambda>s4.
     bind_result (max_pool2d_2 s4) (\<lambda>p4.
     bind_result (conv_block 512 1024 p4) (\<lambda>bottleneck.
     bind_result (DecoderBlock_forward 1024 512 bottleneck s4) (\<lambda>d4.
     bind_result (DecoderBlock_forward 512 256 d4 s3) (\<lambda>d3.
     bind_result (DecoderBlock_forward 256 128 d3 s2) (\<lambda>d2.
     bind_result (DecoderBlock_forward 128 64 d2 s1) (\<lambda>d1.
     conv2d_k1 64 num_classes d1)))))))))))))"

text \<open>
  \<open>PhaseClassifier.forward\<close> (models/phase\_classifier.py). Its backbone is torchvision's
  ResNet18 with the final layer replaced by the identity: for a three-channel input of
  non-empty height and width every convolution and pooling of it, with their paddings,
  gives a non-empty result, and the adaptive average pooling and flattening end in 512
  features. The head is \<open>Linear(512, 256)\<close>, \<open>ReLU\<close>, \<open>Dropout\<close>, \<open>Linear(256, num_classes)\<close>.
\<close>

definition resnet18_features :: "shape \<Rightarrow> py_error + shape" where
  "resnet18_features x =
     (case x of
        [n, c, h, w] \<Rightarrow> if c = 3 \<and> 0 < h \<and> 0 < w then Inr [n, 512] else Inl RuntimeError
      | _ \<Rightarrow> Inl RuntimeError)"

definition linear :: "nat \<Rightarrow> nat \<Rightarrow> shape \<Rightarrow> py_error + shape" where
  "linear in_features out_features x =
     (case x of
        [n, f] \<Rightarrow> if f = in_features then Inr [n, out_features] else Inl RuntimeError
      | _ \<Rightarrow> Inl RuntimeError)"

definition PhaseClassifier_forward :: "nat \<Rightarrow> shape \<Rightarrow> py_error + shape" where
  "PhaseClassifier_forward num_classes x =
     bind_result (resnet18_features x) (\<lambda>feats.
     bind_result (linear 512 256 feats) (linear 256 num_classes))"

text \<open>
  A whole call of \<open>analyze_frame\<close>: preprocessing, the forward pass of the segmentation
  model, the resizing of its logits when their height and width differ from those of the
  tensor, the forward pass of the phase model, and then the aggregation above. The two
  models are given by what their forward passes do to a shape.
\<close>

definition analyze_frame_call ::
  "training_config \<Rightarrow> (shape \<Rightarrow> py_error + shape) \<Rightarrow> (shape \<Rightarrow> py_error + shape) \<Rightarrow>
   shape \<Rightarrow> mask \<Rightarrow> real list \<Rightarrow> real \<Rightarrow> py_error + frame_record" where
  "analyze_frame_call cfg segmentation_model phase_model img seg_mask phase_probs quality_score =
     bind_result (preprocess_image cfg img) (\<lambda>tensor.
     bind_result (segmentation_model tensor) (\<lambda>seg_logits.
     bind_result (if last_two seg_logits \<noteq> last_two tensor
                  then interpolate_to seg_logits (last_two tensor) else Inr seg_logits) (\<lambda>seg_logits.
     bind_result (phase_model tensor) (\<lambda>phase_logits.
     analyze_frame cfg img seg_mask phase_probs quality_score))))"

subsection \<open>Preview rendering\<close>

text \<open>The canvas is an array of \<open>uint8\<close> triples; a palette maps class indices to such
  triples.\<close>

type_synonym rgb = "8 word \<times> 8 word \<times> 8 word"

definition zeros_like :: "mask \<Rightarrow> rgb list list" where
  "zeros_like seg_mask = map (map (\<lambda>_. (0, 0, 0))) seg_mask"

text \<open>\<open>canvas[seg_mask == idx] = color\<close>\<close>

definition paint :: "mask \<Rightarrow> nat \<Rightarrow> rgb \<Rightarrow> rgb list list \<Rightarrow> rgb list list" where
  "paint seg_mask idx color canvas =
     map (\<lambda>(mask_row, canvas_row).
            map (\<lambda>(p, c). if p = int idx then color else c) (zip mask_row canvas_row))
         (zip seg_mask canvas)"

fun preview_loop ::
  "mask \<Rightarrow> (int, rgb) dict \<Rightarrow> (nat \<times> string) list \<Rightarrow> rgb list list \<Rightarrow> rgb list list" where
  "preview_loop seg_mask palette [] canvas = canvas"
| "preview_loop seg_mask palette ((idx, label) # rest) canvas =
     (if label = ''background'' then preview_loop seg_mask palette rest canvas
      else (let color = dict_get palette (int idx) (255, 255, 255)
            in preview_loop seg_mask palette rest (paint seg_mask idx color canvas)))"

definition save_mask_preview :: "mask \<Rightarrow> (int, rgb) dict \<Rightarrow> rgb list list" where
  "save_mask_preview seg_mask palette =
     preview_loop seg_mask palette (enumerate 0 label_list) (zeros_like seg_mask)"

section \<open>Reference formulas of the specification\<close>

text \<open>The closed forms the specification gives for the scoring engine, to be compared with
  the loops above.\<close>

definition clamp01 :: "real \<Rightarrow> real" where
  "clamp01 x = max 0 (min 1 x)"

definition weight :: "string \<Rightarrow> real" where
  "weight ph = dict_get PHASE_WEIGHTS ph 0.3"

definition priority :: "string \<Rightarrow> real" where
  "priority l = dict_get OBJECT_PRIORITIES l 0.2"

section \<open>Vocabulary of the properties\<close>

text \<open>The classes that \<open>_summarize_objects\<close> keeps: the entries of the enumerated taxonomy
  with at least one pixel in the mask, the background left out.\<close>

definition present :: "mask \<Rightarrow> (nat \<times> string) list" where
  "present seg_mask =
     filter (\<lambda>(class_idx, label). count_equal seg_mask class_idx \<noteq> 0 \<and> label \<noteq> ''background'')
       (enumerate 0 label_list)"

text \<open>The fraction of the pixels of a mask that carry a class index, as the float the
  division returns.\<close>

definition coverage :: "mask \<Rightarrow> nat \<Rightarrow> real" where
  "coverage seg_mask class_idx = truediv (count_equal seg_mask class_idx) (mask_size seg_mask)"

text \<open>The position of a label in the taxonomy.\<close>

fun index_of :: "'a list \<Rightarrow> 'a \<Rightarrow> nat" where
  "index_of [] x = 0"
| "index_of (y # ys) x = (if x = y then 0 else Suc (index_of ys x))"

definition class_index :: "string \<Rightarrow> nat" where
  "class_index label = index_of label_list label"

text \<open>The order of the object summary: larger coverage first, and for equal coverage the
  smaller class index first.\<close>

definition ranked_before :: "string \<times> real \<Rightarrow> string \<times> real \<Rightarrow> bool" where
  "ranked_before a b =
     (snd a > snd b \<or> (snd a = snd b \<and> class_index (fst a) < class_index (fst b)))"

text \<open>The image shapes that pass \<open>preprocess_image\<close>: three dimensions, a non-empty height
  and width, and three channels or one (a single channel is broadcast against the
  three-channel mean and std).\<close>

definition accepted_shape :: "training_config \<Rightarrow> shape \<Rightarrow> bool" where
  "accepted_shape cfg img =
     (case img of
        [h, w, c] \<Rightarrow> 0 < h \<and> 0 < w \<and> (c = 3 \<or> c = 1) \<and> 0 < image_size cfg
      | _ \<Rightarrow> False)"

text \<open>The loop of \<open>save_mask_preview\<close> seen from one pixel \<open>p\<close> of the mask, whose canvas
  entry is \<open>c\<close>.\<close>

fun pixel_after :: "(int, rgb) dict \<Rightarrow> (nat \<times> string) list \<Rightarrow> rgb \<Rightarrow> int \<Rightarrow> rgb" where
  "pixel_after palette [] c p = c"
| "pixel_after palette ((idx, label) # rest) c p =
     (if label = ''background'' then pixel_after palette rest c p
      else pixel_after palette rest
             (if p = int idx then dict_get palette (int idx) (255, 255, 255) else c) p)"

section \<open>Properties of the scoring engine\<close>

lemma phase_score_loop_sum:
  "phase_score_loop pp acc = acc + (\<Sum>(ph, p)\<leftarrow>pp. p * dict_get PHASE_WEIGHTS ph 0.3)"
  by (induction pp acc rule: phase_score_loop.induct) simp_all

lemma object_score_loop_sum:
  "object_score_loop objs acc = acc + (\<Sum>l\<leftarrow>objs. dict_get OBJECT_PRIORITIES l 0.2)"
  by (induction objs arbitrary: acc) simp_all

lemma sum_list_items_by_key:
  assumes "distinct (map fst d)"
  shows "(\<Sum>(k, v)\<leftarrow>d. f k v) = (\<Sum>k\<in>set (map fst d). f k (the (map_of d k)))"
proof -
  have "map (\<lambda>(k, v). f k v) d = map ((\<lambda>k. f k (the (map_of d k))) \<circ> fst) d"
  proof (rule map_cong[OF refl])
    fix x assume x: "x \<in> set d"
    obtain k v where kv: "x = (k, v)" by (cases x)
    with x assms have "map_of d k = Some v" by simp
    with kv show "(case x of (k, v) \<Rightarrow> f k v) = ((\<lambda>k. f k (the (map_of d k))) \<circ> fst) x"
      by simp
  qed
  then have "(\<Sum>(k, v)\<leftarrow>d. f k v) = sum_list (map (\<lambda>k. f k (the (map_of d k))) (map fst d))"
    by (simp only: map_map)
  also have "\<dots> = (\<Sum>k\<in>set (map fst d). f k (the (map_of d k)))"
    using assms by (rule sum_list_distinct_conv_sum_set)
  finally show ?thesis .
qed

text \<open>
  C1 (as the code computes it). With all probability on \<open>clip_and_divide\<close>, the single
  detected object \<open>cystic_artery\<close> and quality score 80, the phase score is 1, the object score
  is 1/3 and the weighted sum is 0.32 + 0.35 + 0.25/3 + 0.1 = 0.8533..., below 1: the
  importance score is 256/3 (about 85.33), not saturated.
\<close>

theorem exact_score_scenario:
  "calculate_phase_score
     [(''pre_op'', 0), (''port_setup'', 0), (''exposure'', 0), (''critical_dissection'', 0),
      (''clip_and_divide'', 1), (''closure'', 0)] = 1 \<and>
   calculate_object_score (map fst [(''cystic_artery'', 0.1 :: real)]) = 1 / 3 \<and>
   compute_importance 80 1 (1 / 3) ai_bonus_default = 256 / 3"
  by (simp add: calculate_phase_score_def calculate_object_score_def compute_importance_def
      ai_bonus_default_def dict_get_def PHASE_WEIGHTS_def OBJECT_PRIORITIES_def)

text \<open>
  C1 (as the specification states it) fails: on the scenario's inputs the importance score
  is not 100.
\<close>

theorem scenario_importance_not_100:
  "compute_importance 80
     (calculate_phase_score
        [(''pre_op'', 0), (''port_setup'', 0), (''exposure'', 0), (''critical_dissection'', 0),
         (''clip_and_divide'', 1), (''closure'', 0)])
     (calculate_object_score (map fst [(''cystic_artery'', 0.1 :: real)]))
     ai_bonus_default \<noteq> 100"
  by (simp add: calculate_phase_score_def calculate_object_score_def compute_importance_def
      ai_bonus_default_def dict_get_def PHASE_WEIGHTS_def OBJECT_PRIORITIES_def)

text \<open>
  C2. For a phase-probability dict (distinct keys) and a set of detected labels (a list
  without repetition): the phase score is the probability-weighted sum of the phase weights
  (0.3 for a phase not in the table), capped at 1; the object score is the sum of the
  priorities of the labels (0.2 for a label not in the table; coverage plays no part),
  capped at 3 and divided by 3; and the importance score with the default bonus 0.1 is
  \<open>clamp01 (0.4 * (q / 100) + 0.35 * phase_score + 0.25 * object_score + 0.1) * 100\<close>.
\<close>

theorem scoring_formulas:
  assumes "distinct (map fst phase_probs)" and "distinct labels"
  shows "calculate_phase_score phase_probs =
           min 1.0 (\<Sum>ph\<in>set (map fst phase_probs). the (map_of phase_probs ph) * weight ph) \<and>
         calculate_object_score labels = min 3.0 (\<Sum>l\<in>set labels. priority l) / 3.0 \<and>
         compute_importance q ps os ai_bonus_default =
           clamp01 (0.4 * (q / 100) + 0.35 * ps + 0.25 * os + 0.1) * 100"
proof (intro conjI)
  show "calculate_phase_score phase_probs =
           min 1.0 (\<Sum>ph\<in>set (map fst phase_probs). the (map_of phase_probs ph) * weight ph)"
    unfolding calculate_phase_score_def phase_score_loop_sum weight_def
    using sum_list_items_by_key[OF assms(1), of "\<lambda>ph p. p * dict_get PHASE_WEIGHTS ph 0.3"]
    by (simp add: min.commute)
  show "calculate_object_score labels = min 3.0 (\<Sum>l\<in>set labels. priority l) / 3.0"
    unfolding calculate_object_score_def object_score_loop_sum priority_def
    using sum_list_distinct_conv_sum_set[OF assms(2), of "\<lambda>l. dict_get OBJECT_PRIORITIES l 0.2"]
    by (simp add: min.commute)
  show "compute_importance q ps os ai_bonus_default =
           clamp01 (0.4 * (q / 100) + 0.35 * ps + 0.25 * os + 0.1) * 100"
    by (simp add: compute_importance_def ai_bonus_default_def clamp01_def)
qed

theorem scoring_formulas_witness:
  "distinct (map fst [(''exposure'', 1 / 2 :: real), (''suturing'', 1 / 2)]) \<and>
   distinct [''liver'', ''trocar''] \<and>
   calculate_phase_score [(''exposure'', 1 / 2), (''suturing'', 1 / 2)] =
     min 1.0 (\<Sum>ph\<in>set (map fst [(''exposure'', 1 / 2 :: real), (''suturing'', 1 / 2)]).
                the (map_of [(''exposure'', 1 / 2), (''suturing'', 1 / 2)] ph) * weight ph) \<and>
   calculate_object_score [''liver'', ''trocar''] =
     min 3.0 (\<Sum>l\<in>set [''liver'', ''trocar'']. priority l) / 3.0 \<and>
   compute_importance 90 (9 / 20) (1 / 5) ai_bonus_default =
     clamp01 (0.4 * (90 / 100) + 0.35 * (9 / 20) + 0.25 * (1 / 5) + 0.1) * 100"
proof -
  have h1: "distinct (map fst [(''exposure'', 1 / 2 :: real), (''suturing'', 1 / 2)])" by simp
  have h2: "distinct [''liver'', ''trocar'']" by simp
  show ?thesis
    using h1 h2 scoring_formulas[OF h1 h2, of 90 "9 / 20" "1 / 5"] by blast
qed

text \<open>
  C9. \<open>compute_importance\<close> is non-decreasing in the quality score, in the phase score and
  in the object score, the other arguments held fixed, and its result lies in [0, 100] for
  all real arguments, a negative or oversized quality score included.
\<close>

theorem compute_importance_monotone_bounded:
  "(q1 \<le> q2 \<longrightarrow> compute_importance q1 p ob b \<le> compute_importance q2 p ob b) \<and>
   (p1 \<le> p2 \<longrightarrow> compute_importance q p1 ob b \<le> compute_importance q p2 ob b) \<and>
   (o1 \<le> o2 \<longrightarrow> compute_importance q p o1 b \<le> compute_importance q p o2 b) \<and>
   0 \<le> compute_importance q p ob b \<and> compute_importance q p ob b \<le> 100"
  by (auto simp: compute_importance_def Let_def max_def min_def)

theorem compute_importance_monotone_bounded_witness:
  "(- 50 :: real) \<le> 20 \<and> (0.1 :: real) \<le> 0.6 \<and> (0 :: real) \<le> 1 \<and>
   compute_importance (- 50) (1 / 2) (1 / 2) ai_bonus_default
     \<le> compute_importance 20 (1 / 2) (1 / 2) ai_bonus_default \<and>
   compute_importance 250 0.1 (1 / 2) ai_bonus_default
     \<le> compute_importance 250 0.6 (1 / 2) ai_bonus_default \<and>
   compute_importance 250 (1 / 2) 0 ai_bonus_default
     \<le> compute_importance 250 (1 / 2) 1 ai_bonus_default \<and>
   0 \<le> compute_importance 250 (1 / 2) (1 / 2) ai_bonus_default \<and>
   compute_importance 250 (1 / 2) (1 / 2) ai_bonus_default \<le> 100"
  using compute_importance_monotone_bounded
    [of "- 50" 20 "1 / 2" "1 / 2" ai_bonus_default "0.1" "0.6" 250 0 1]
  by simp

section \<open>Dictionaries and phase probabilities\<close>

lemma dict_set_fresh: "k \<notin> fst ` set d \<Longrightarrow> dict_set d k v = d @ [(k, v)]"
  by (induction d) auto

lemma dict_of_items_distinct:
  "distinct (map fst (d @ items)) \<Longrightarrow> dict_of_items d items = d @ items"
proof (induction items arbitrary: d)
  case Nil
  then show ?case by simp
next
  case (Cons a items)
  obtain k v where a: "a = (k, v)" by (cases a)
  from Cons.prems a have fresh: "k \<notin> fst ` set d" by auto
  from Cons.prems a have "distinct (map fst ((d @ [(k, v)]) @ items))" by auto
  then have "dict_of_items (d @ [(k, v)]) items = (d @ [(k, v)]) @ items"
    by (rule Cons.IH)
  with fresh a show ?case by (simp add: dict_set_fresh)
qed

lemma phases_taxonomy:
  "map fst PHASE_DEFINITIONS =
     [''pre_op'', ''port_setup'', ''exposure'', ''critical_dissection'', ''clip_and_divide'',
      ''closure'']"
  by (simp add: PHASE_DEFINITIONS_def)

lemma distinct_phases: "distinct (map fst PHASE_DEFINITIONS)"
  by (simp add: phases_taxonomy)

lemma empty_phase_probabilities_eq:
  "empty_phase_probabilities = map (\<lambda>phase. (phase, 1 / 6)) (map fst PHASE_DEFINITIONS)"
proof -
  have "distinct (map fst ([] @ map (\<lambda>phase. (phase, 1 / 6 :: real)) (map fst PHASE_DEFINITIONS)))"
    using distinct_phases by (simp add: comp_def)
  then have "dict_of_items [] (map (\<lambda>phase. (phase, 1 / 6 :: real)) (map fst PHASE_DEFINITIONS)) =
      [] @ map (\<lambda>phase. (phase, 1 / 6)) (map fst PHASE_DEFINITIONS)"
    by (rule dict_of_items_distinct)
  moreover have "length (map fst PHASE_DEFINITIONS) = 6" by (simp add: PHASE_DEFINITIONS_def)
  ultimately show ?thesis by (simp add: empty_phase_probabilities_def Let_def)
qed

lemma phase_probabilities_dict_eq:
  "phase_probabilities_dict probs =
     (if length probs \<noteq> 6 then map (\<lambda>phase. (phase, 1 / 6)) (map fst PHASE_DEFINITIONS)
      else zip (map fst PHASE_DEFINITIONS) probs)"
proof -
  have len: "length (map fst PHASE_DEFINITIONS) = 6" by (simp add: PHASE_DEFINITIONS_def)
  have "dict_of_items [] (zip (map fst PHASE_DEFINITIONS) probs) = [] @ zip (map fst PHASE_DEFINITIONS) probs"
    if "length probs = 6"
  proof (rule dict_of_items_distinct)
    have "map fst (zip (map fst PHASE_DEFINITIONS) probs) = map fst PHASE_DEFINITIONS"
      using that len by (metis map_fst_zip)
    then show "distinct (map fst ([] @ zip (map fst PHASE_DEFINITIONS) probs))"
      using distinct_phases by simp
  qed
  then show ?thesis
    using len by (simp add: phase_probabilities_dict_def Let_def empty_phase_probabilities_eq)
qed

lemma keys_phase_probabilities_dict:
  "map fst (phase_probabilities_dict probs) = map fst PHASE_DEFINITIONS"
proof -
  have len: "length (map fst PHASE_DEFINITIONS) = 6" by (simp add: PHASE_DEFINITIONS_def)
  show ?thesis
  proof (cases "length probs = 6")
    case True
    then have "map fst (zip (map fst PHASE_DEFINITIONS) probs) = map fst PHASE_DEFINITIONS"
      using len by (metis map_fst_zip)
    with True show ?thesis by (simp add: phase_probabilities_dict_eq)
  next
    case False
    then show ?thesis by (simp add: phase_probabilities_dict_eq comp_def)
  qed
qed

lemma max_by_get_phase: "\<exists>k. max_by_get (phase_probabilities_dict probs) = Inr k"
proof -
  have "phase_probabilities_dict probs \<noteq> []"
    using keys_phase_probabilities_dict[of probs] by (auto simp: phases_taxonomy)
  then show ?thesis
    by (auto simp: max_by_get_def split: list.splits)
qed

lemma coverage_items_ok:
  "areas = [] \<or> 0 < total_pixels \<Longrightarrow>
   coverage_items areas total_pixels =
     Inr (map (\<lambda>(label, count). (label, truediv count total_pixels)) areas)"
  by (induction areas total_pixels rule: coverage_items.induct) auto

section \<open>Properties of the object summary\<close>

lemma label_list_eq:
  "label_list = [''background'', ''liver'', ''gallbladder'', ''cystic_duct'', ''cystic_artery'',
     ''common_bile_duct'', ''grasper'', ''hook'', ''scissors'']"
  by (simp add: label_list_def PIXEL_VALUE_TO_LABEL_def)

lemma distinct_label_list: "distinct label_list"
  by (simp add: label_list_eq)

lemma areas_loop_eq:
  "distinct (map fst areas @ map snd es) \<Longrightarrow>
   areas_loop seg_mask es areas =
     areas @ map (\<lambda>(class_idx, label). (label, count_equal seg_mask class_idx))
       (filter (\<lambda>(class_idx, label). count_equal seg_mask class_idx \<noteq> 0 \<and> label \<noteq> ''background'') es)"
proof (induction es arbitrary: areas)
  case Nil
  then show ?case by simp
next
  case (Cons e es)
  obtain class_idx label where e: "e = (class_idx, label)" by (cases e)
  show ?case
  proof (cases "count_equal seg_mask class_idx = 0 \<or> label = ''background''")
    case True
    from Cons.prems e have "distinct (map fst areas @ map snd es)" by simp
    from Cons.IH[OF this] True e show ?thesis by auto
  next
    case False
    from Cons.prems e have fresh: "label \<notin> fst ` set areas" by auto
    from Cons.prems e
    have "distinct (map fst (areas @ [(label, count_equal seg_mask class_idx)]) @ map snd es)"
      by auto
    from Cons.IH[OF this] False e fresh show ?thesis
      by (simp add: dict_set_fresh)
  qed
qed

lemma areas_eq:
  "areas_loop seg_mask (enumerate 0 label_list) [] =
     map (\<lambda>(class_idx, label). (label, count_equal seg_mask class_idx)) (present seg_mask)"
proof -
  have "distinct (map fst ([] :: (string \<times> nat) list) @ map snd (enumerate 0 label_list))"
    using distinct_label_list by simp
  from areas_loop_eq[OF this] show ?thesis by (simp add: present_def)
qed

lemma count_equal_le: "count_equal seg_mask class_idx \<le> mask_size seg_mask"
  by (simp add: count_equal_def mask_size_def)

lemma present_pixels: "present seg_mask \<noteq> [] \<Longrightarrow> 0 < mask_size seg_mask"
proof -
  assume "present seg_mask \<noteq> []"
  then obtain e where "e \<in> set (present seg_mask)" by (cases "present seg_mask") auto
  then obtain i l where "count_equal seg_mask i \<noteq> 0" by (auto simp: present_def)
  with count_equal_le[of seg_mask i] show ?thesis by simp
qed

lemma summarize_objects_eq:
  "summarize_objects seg_mask =
     Inr (take 5 (sorted_reverse snd
       (map (\<lambda>(class_idx, label). (label, coverage seg_mask class_idx)) (present seg_mask))))"
proof -
  let ?areas = "map (\<lambda>(class_idx, label). (label, count_equal seg_mask class_idx)) (present seg_mask)"
  have "?areas = [] \<or> 0 < mask_size seg_mask"
    using present_pixels[of seg_mask] by (cases "present seg_mask = []") simp_all
  then have c: "coverage_items ?areas (mask_size seg_mask) =
      Inr (map (\<lambda>(label, count). (label, truediv count (mask_size seg_mask))) ?areas)"
    by (rule coverage_items_ok)
  have e: "map (\<lambda>(label, count). (label, truediv count (mask_size seg_mask))) ?areas =
      map (\<lambda>(class_idx, label). (label, coverage seg_mask class_idx)) (present seg_mask)"
    by (simp add: coverage_def case_prod_unfold comp_def)
  show ?thesis
    unfolding summarize_objects_def Let_def areas_eq c e by simp
qed

lemma set_sorted_reverse: "set (sorted_reverse f xs) = set xs"
  by (simp add: sorted_reverse_def)

lemma length_sorted_reverse: "length (sorted_reverse f xs) = length xs"
  by (simp add: sorted_reverse_def)

lemma sum_list_insort_key:
  "sum_list (map g (insort_key f x xs)) = g x + sum_list (map g xs)" for g :: "'a \<Rightarrow> real"
  by (induction xs) simp_all

lemma sum_list_sort_key:
  "sum_list (map g (sort_key f xs)) = sum_list (map g xs)" for g :: "'a \<Rightarrow> real"
  by (induction xs) (simp_all add: sum_list_insort_key)

lemma sum_list_sorted_reverse:
  "sum_list (map g (sorted_reverse f xs)) = sum_list (map g xs)" for g :: "'a \<Rightarrow> real"
  by (simp add: sorted_reverse_def sum_list_sort_key rev_map[symmetric] sum_list_rev
      del: rev_map)

lemma sorted_reverse_descending:
  "sorted_wrt (\<lambda>a b. f b \<le> f a) (sorted_reverse f xs)"
proof -
  have "sorted (map f (sort_key f (rev xs)))" by simp
  then have "sorted_wrt (\<lambda>a b. f a \<le> f b) (sort_key f (rev xs))"
    by (simp only: sorted_map)
  then show ?thesis
    by (simp add: sorted_reverse_def sorted_wrt_rev)
qed

lemma sorted_reverse_stable:
  "filter (\<lambda>x. f x = k) (sorted_reverse f xs) = filter (\<lambda>x. f x = k) xs"
proof -
  have "filter (\<lambda>x. f x = k) (sorted_reverse f xs) = rev (filter (\<lambda>x. f x = k) (sort_key f (rev xs)))"
    by (simp add: sorted_reverse_def rev_filter)
  also have "\<dots> = rev (filter (\<lambda>x. f x = k) (rev xs))"
    by (simp only: sort_key_stable)
  also have "\<dots> = filter (\<lambda>x. f x = k) xs"
    by (simp add: rev_filter)
  finally show ?thesis .
qed

lemma sorted_wrt_by_key_classes:
  "sorted_wrt P xs \<Longrightarrow> (\<And>k. sorted_wrt Q (filter (\<lambda>x. f x = k) xs)) \<Longrightarrow>
   sorted_wrt (\<lambda>a b. P a b \<and> (f a = f b \<longrightarrow> Q a b)) xs"
proof (induction xs)
  case Nil
  then show ?case by simp
next
  case (Cons x xs)
  have tail: "sorted_wrt Q (filter (\<lambda>y. f y = k) xs)" for k
    using Cons.prems(2)[of k] by (cases "f x = k") simp_all
  have head: "Q x y" if "y \<in> set xs" "f x = f y" for y
    using Cons.prems(2)[of "f x"] that by auto
  from Cons.IH[OF _ tail] Cons.prems(1) head show ?case by auto
qed

lemma index_of_nth: "distinct xs \<Longrightarrow> i < length xs \<Longrightarrow> index_of xs (xs ! i) = i"
proof (induction xs arbitrary: i)
  case Nil
  then show ?case by simp
next
  case (Cons x xs)
  then show ?case by (cases i) auto
qed

lemma class_index_enumerate:
  "(i, l) \<in> set (enumerate 0 label_list) \<Longrightarrow> class_index l = i"
  using index_of_nth[OF distinct_label_list, of i]
  by (auto simp: in_set_enumerate_eq class_index_def)

lemma enumerate_ascending:
  "sorted_wrt (\<lambda>a b. fst a < fst b) (enumerate n xs)"
proof -
  have "sorted_wrt (<) (map fst (enumerate n xs))" by simp
  then show ?thesis by (simp only: sorted_wrt_map)
qed

lemma present_ascending:
  "sorted_wrt (\<lambda>a b. class_index (snd a) < class_index (snd b)) (present seg_mask)"
proof -
  have "sorted_wrt (\<lambda>a b. fst a < fst b) (present seg_mask)"
    unfolding present_def by (rule sorted_wrt_filter) (rule enumerate_ascending)
  moreover have "class_index (snd a) = fst a" if "a \<in> set (present seg_mask)" for a
    using that class_index_enumerate[of "fst a" "snd a"] by (simp add: present_def)
  ultimately show ?thesis
    by (rule_tac sorted_wrt_mono_rel[where P = "\<lambda>a b. fst a < fst b"]) auto
qed

lemma nat_ratio_le_1: "a \<le> b \<Longrightarrow> real a / real b \<le> 1"
  by (cases "b = 0") simp_all

lemma indicator_sum_le_1:
  "(\<Sum>i\<leftarrow>[0..<n]. if x = int i then 1 else 0 :: nat) \<le> 1"
  by (induction n) auto

lemma class_counts_le_length:
  "(\<Sum>i\<leftarrow>[0..<n]. length (filter (\<lambda>p. p = int i) xs)) \<le> length xs"
proof (induction xs)
  case Nil
  then show ?case by simp
next
  case (Cons x xs)
  have "(\<Sum>i\<leftarrow>[0..<n]. length (filter (\<lambda>p. p = int i) (x # xs))) =
        (\<Sum>i\<leftarrow>[0..<n]. (if x = int i then 1 else 0) + length (filter (\<lambda>p. p = int i) xs))"
    by (rule arg_cong[where f = sum_list]) simp
  also have "\<dots> = (\<Sum>i\<leftarrow>[0..<n]. if x = int i then 1 else 0) +
                   (\<Sum>i\<leftarrow>[0..<n]. length (filter (\<lambda>p. p = int i) xs))"
    by (simp only: sum_list_addf)
  also have "\<dots> \<le> 1 + length xs"
    using indicator_sum_le_1[of x n] Cons.IH by (rule add_mono)
  finally show ?case by simp
qed

lemma present_counts_le:
  "(\<Sum>(class_idx, label)\<leftarrow>present seg_mask. count_equal seg_mask class_idx) \<le> mask_size seg_mask"
proof -
  have "(\<Sum>(class_idx, label)\<leftarrow>present seg_mask. count_equal seg_mask class_idx) =
        sum_list (map (\<lambda>e. count_equal seg_mask (fst e)) (present seg_mask))"
    by (simp add: case_prod_unfold)
  also have "\<dots> \<le> sum_list (map (\<lambda>e. count_equal seg_mask (fst e)) (enumerate 0 label_list))"
    unfolding present_def by (rule sum_list_filter_le_nat)
  also have "\<dots> = sum_list (map (count_equal seg_mask) (map fst (enumerate 0 label_list)))"
    by (simp only: map_map comp_def)
  also have "\<dots> = (\<Sum>i\<leftarrow>[0..<length label_list]. count_equal seg_mask i)"
    by simp
  also have "\<dots> \<le> mask_size seg_mask"
    unfolding count_equal_def mask_size_def by (rule class_counts_le_length)
  finally show ?thesis .
qed

lemma sum_list_real_div:
  "(\<Sum>x\<leftarrow>xs. real (f x) / c) = real (\<Sum>x\<leftarrow>xs. f x) / c"
  by (induction xs) (simp_all add: add_divide_distrib)

lemma present_fractions_le_1:
  "(\<Sum>e\<leftarrow>present seg_mask. real (count_equal seg_mask (fst e)) / real (mask_size seg_mask)) \<le> 1"
proof -
  have "(\<Sum>e\<leftarrow>present seg_mask. real (count_equal seg_mask (fst e)) / real (mask_size seg_mask)) =
        real (\<Sum>e\<leftarrow>present seg_mask. count_equal seg_mask (fst e)) / real (mask_size seg_mask)"
    by (rule sum_list_real_div)
  also have "\<dots> \<le> 1"
    using present_counts_le[of seg_mask] by (simp add: case_prod_unfold nat_ratio_le_1)
  finally show ?thesis .
qed

lemma sum_list_take_le:
  "(\<And>x. x \<in> set xs \<Longrightarrow> 0 \<le> x) \<Longrightarrow> sum_list (take n xs) \<le> sum_list xs" for xs :: "real list"
proof -
  assume nonneg: "\<And>x. x \<in> set xs \<Longrightarrow> 0 \<le> x"
  have "sum_list xs = sum_list (take n xs) + sum_list (drop n xs)"
    by (metis append_take_drop_id sum_list_append)
  moreover have "0 \<le> sum_list (drop n xs)"
    by (rule sum_list_nonneg) (auto dest: in_set_dropD nonneg)
  ultimately show ?thesis by simp
qed

text \<open>The rounded division: the scaled quotient is at least \<open>2 ^ 52\<close>, the mantissa is within
  one half of it, and so the result is positive, at most 1, and above the exact quotient by
  at most the factor \<open>1 + 2 ^ -53\<close>.\<close>

lemma bit_length_upper: "n < 2 ^ bit_length n"
proof (induction n rule: bit_length.induct)
  case 1
  then show ?case by simp
next
  case (2 n)
  have "Suc n \<le> 2 * (Suc n div 2) + 1" by simp
  also have "\<dots> < 2 * 2 ^ bit_length (Suc n div 2)" using "2.IH" by simp
  finally show ?case by simp
qed

lemma bit_length_lower: "0 < n \<Longrightarrow> 2 ^ (bit_length n - 1) \<le> n"
proof (induction n rule: bit_length.induct)
  case 1
  then show ?case by simp
next
  case (2 n)
  show ?case
  proof (cases "Suc n div 2 = 0")
    case True
    then show ?thesis by simp
  next
    case False
    then have pos: "0 < Suc n div 2" by simp
    then have blpos: "0 < bit_length (Suc n div 2)"
      by (cases "Suc n div 2") simp_all
    from "2.IH"[OF pos] have "2 * 2 ^ (bit_length (Suc n div 2) - 1) \<le> 2 * (Suc n div 2)"
      by simp
    also have "\<dots> \<le> Suc n" by simp
    finally have "2 ^ Suc (bit_length (Suc n div 2) - 1) \<le> Suc n" by simp
    with blpos show ?thesis by simp
  qed
qed

lemma binary_exponent_scaled:
  assumes "0 < c" and "c \<le> t"
  shows "2 ^ 52 * int t \<le> int c * 2 ^ binary_exponent c t"
proof -
  let ?a = "bit_length c" and ?b = "bit_length t"
  let ?e0 = "52 + ?b - ?a"
  show ?thesis
  proof (cases "2 ^ 52 * int t \<le> int c * 2 ^ ?e0")
    case True
    then show ?thesis by (simp add: binary_exponent_def Let_def)
  next
    case False
    have apos: "0 < ?a" using assms(1) by (cases c) simp_all
    have "2 ^ (?a - 1) \<le> c" using assms(1) by (rule bit_length_lower)
    also have "c \<le> t" by fact
    also have "t < 2 ^ ?b" by (rule bit_length_upper)
    finally have "?a - 1 < ?b" by simp
    with apos have ab: "?a \<le> ?b" by simp
    have "(2::nat) ^ 52 * t \<le> 2 ^ 52 * 2 ^ ?b"
      using bit_length_upper[of t] by simp
    also have "\<dots> = 2 ^ (?a - 1) * 2 ^ (?e0 + 1)"
    proof -
      have "(?a - 1) + (?e0 + 1) = 52 + ?b" using apos ab by simp
      then have "(2::nat) ^ (?a - 1) * 2 ^ (?e0 + 1) = 2 ^ (52 + ?b)"
        by (simp only: power_add[symmetric])
      then show ?thesis by (simp only: power_add)
    qed
    also have "\<dots> \<le> c * 2 ^ (?e0 + 1)"
      using bit_length_lower[OF assms(1)] by simp
    finally have "(2::nat) ^ 52 * t \<le> c * 2 ^ (?e0 + 1)" .
    then have "int (2 ^ 52 * t) \<le> int (c * 2 ^ (?e0 + 1))" by (simp only: of_nat_le_iff)
    then have "2 ^ 52 * int t \<le> int c * 2 ^ (?e0 + 1)" by simp
    with False show ?thesis by (simp add: binary_exponent_def Let_def)
  qed
qed

lemma round_half_even_ge: "0 < t \<Longrightarrow> n div t \<le> round_half_even n t"
  by (simp add: round_half_even_def Let_def)

lemma round_half_even_le_bound:
  assumes "0 < t" and "n \<le> k * t"
  shows "round_half_even n t \<le> k"
proof -
  have d: "n div t \<le> k"
    using assms by (metis zdiv_mono1 nonzero_mult_div_cancel_right less_irrefl)
  show ?thesis
  proof (cases "n div t = k")
    case True
    have "n = t * (n div t) + n mod t" by simp
    with True assms(2) have "n mod t \<le> 0" by (simp add: mult.commute)
    moreover have "0 \<le> n mod t" using assms(1) by simp
    ultimately have "n mod t = 0" by simp
    with True assms(1) show ?thesis by (simp add: round_half_even_def Let_def)
  next
    case False
    with d have "n div t + 1 \<le> k" by simp
    then show ?thesis by (simp add: round_half_even_def Let_def)
  qed
qed

lemma round_half_even_le_half:
  assumes "0 < t"
  shows "real_of_int (round_half_even n t) \<le> real_of_int n / real_of_int t + 1 / 2"
proof -
  have n: "real_of_int n = real_of_int t * real_of_int (n div t) + real_of_int (n mod t)"
    by (metis mult_div_mod_eq of_int_add of_int_mult)
  have tpos: "0 < real_of_int t" using assms by simp
  have q: "real_of_int n / real_of_int t = real_of_int (n div t) + real_of_int (n mod t) / real_of_int t"
    using tpos by (simp add: n field_simps)
  have r0: "0 \<le> real_of_int (n mod t) / real_of_int t"
    using assms by simp
  have up: "real_of_int (n div t) + 1 \<le> real_of_int n / real_of_int t + 1 / 2"
    if "t \<le> 2 * (n mod t)"
  proof -
    from that have "real_of_int t \<le> 2 * real_of_int (n mod t)"
      by (metis of_int_le_iff of_int_mult of_int_numeral)
    then have "1 / 2 \<le> real_of_int (n mod t) / real_of_int t"
      using tpos by (simp add: field_simps)
    with q show ?thesis by linarith
  qed
  show ?thesis
  proof (cases "2 * (n mod t) < t")
    case True
    then have "round_half_even n t = n div t" by (simp add: round_half_even_def Let_def)
    with q r0 show ?thesis by simp
  next
    case False
    then have "t \<le> 2 * (n mod t)" by simp
    from up[OF this] have u: "real_of_int (n div t + 1) \<le> real_of_int n / real_of_int t + 1 / 2"
      by simp
    have "round_half_even n t \<le> n div t + 1" by (simp add: round_half_even_def Let_def)
    then have "real_of_int (round_half_even n t) \<le> real_of_int (n div t + 1)"
      by (simp only: of_int_le_iff)
    with u show ?thesis by linarith
  qed
qed


lemma truediv_pos:
  assumes "0 < c" and "c \<le> t"
  shows "0 < truediv c t"
proof -
  let ?e = "binary_exponent c t"
  have tpos: "0 < int t" using assms by simp
  have "2 ^ 52 * int t \<le> int c * 2 ^ ?e" using assms by (rule binary_exponent_scaled)
  then have "(2 ^ 52 * int t) div int t \<le> (int c * 2 ^ ?e) div int t"
    by (rule zdiv_mono1) (rule tpos)
  then have "2 ^ 52 \<le> (int c * 2 ^ ?e) div int t" using tpos by simp
  also have "\<dots> \<le> round_half_even (int c * 2 ^ ?e) (int t)"
    using tpos by (rule round_half_even_ge)
  finally have "0 < round_half_even (int c * 2 ^ ?e) (int t)" by simp
  with assms(1) show ?thesis by (simp add: truediv_def Let_def)
qed

lemma truediv_le_1:
  assumes "0 < c" and "c \<le> t"
  shows "truediv c t \<le> 1"
proof -
  let ?e = "binary_exponent c t"
  have tpos: "0 < int t" using assms by simp
  have "int c * 2 ^ ?e \<le> 2 ^ ?e * int t" using assms(2) by (simp add: mult.commute)
  with tpos have "round_half_even (int c * 2 ^ ?e) (int t) \<le> 2 ^ ?e"
    by (rule round_half_even_le_bound)
  then have "real_of_int (round_half_even (int c * 2 ^ ?e) (int t)) \<le> real_of_int (2 ^ ?e)"
    by (simp only: of_int_le_iff)
  then have "real_of_int (round_half_even (int c * 2 ^ ?e) (int t)) / 2 ^ ?e \<le> 1"
    by (simp add: divide_le_eq_1_pos)
  with assms(1) show ?thesis by (simp add: truediv_def Let_def)
qed

lemma truediv_relative_error:
  assumes "0 < c" and "c \<le> t"
  shows "truediv c t \<le> (1 + 1 / 2 ^ 53) * (real c / real t)"
proof -
  let ?e = "binary_exponent c t"
  let ?m = "round_half_even (int c * 2 ^ ?e) (int t)"
  define x where "x = real c * 2 ^ ?e / real t"
  have tpos: "0 < int t" and rtpos: "0 < real t" using assms by simp_all
  have p: "(0::real) < 2 ^ ?e" by simp
  have "real_of_int ?m \<le> real_of_int (int c * 2 ^ ?e) / real_of_int (int t) + 1 / 2"
    using tpos by (rule round_half_even_le_half)
  then have m: "real_of_int ?m \<le> x + 1 / 2" by (simp add: x_def)
  have "2 ^ 52 * int t \<le> int c * 2 ^ ?e" using assms by (rule binary_exponent_scaled)
  then have "real_of_int (2 ^ 52 * int t) \<le> real_of_int (int c * 2 ^ ?e)"
    by (simp only: of_int_le_iff)
  then have "2 ^ 52 * real t \<le> real c * 2 ^ ?e" by simp
  then have "2 ^ 52 \<le> x"
    using rtpos by (simp add: x_def le_divide_eq)
  then have "1 / 2 \<le> (1 / 2 ^ 53) * x" by simp
  with m have "real_of_int ?m \<le> (1 + 1 / 2 ^ 53) * x"
    by (simp add: algebra_simps)
  then have "real_of_int ?m / 2 ^ ?e \<le> ((1 + 1 / 2 ^ 53) * x) / 2 ^ ?e"
    by (rule divide_right_mono) simp
  also have "((1 + 1 / 2 ^ 53) * x) / 2 ^ ?e = (1 + 1 / 2 ^ 53) * (x / 2 ^ ?e)"
    by (simp only: times_divide_eq_right)
  also have "x / 2 ^ ?e = real c / real t"
    using p by (simp add: x_def)
  finally have "real_of_int ?m / 2 ^ ?e \<le> (1 + 1 / 2 ^ 53) * (real c / real t)" .
  moreover have "truediv c t = real_of_int ?m / 2 ^ ?e"
    using assms(1) by (simp add: truediv_def Let_def)
  ultimately show ?thesis by (simp only:)
qed

lemma coverage_pos: "0 < count_equal seg_mask class_idx \<Longrightarrow> 0 < coverage seg_mask class_idx"
  unfolding coverage_def by (rule truediv_pos) (simp_all add: count_equal_le)

lemma coverage_le_1:
  "0 < count_equal seg_mask class_idx \<Longrightarrow> coverage seg_mask class_idx \<le> 1"
  unfolding coverage_def by (rule truediv_le_1) (simp_all add: count_equal_le)

lemma coverage_relative_error:
  "0 < count_equal seg_mask class_idx \<Longrightarrow>
   coverage seg_mask class_idx \<le>
     (1 + 1 / 2 ^ 53) * (real (count_equal seg_mask class_idx) / real (mask_size seg_mask))"
  unfolding coverage_def by (rule truediv_relative_error) (simp_all add: count_equal_le)

lemma present_count_pos: "e \<in> set (present seg_mask) \<Longrightarrow> 0 < count_equal seg_mask (fst e)"
  by (auto simp: present_def)

lemma present_coverage_bound:
  "(\<Sum>e\<leftarrow>present seg_mask. coverage seg_mask (fst e)) \<le> 1 + 1 / 2 ^ 53"
proof -
  have "(\<Sum>e\<leftarrow>present seg_mask. coverage seg_mask (fst e)) \<le>
        (\<Sum>e\<leftarrow>present seg_mask.
           (1 + 1 / 2 ^ 53) * (real (count_equal seg_mask (fst e)) / real (mask_size seg_mask)))"
    by (rule sum_list_mono) (rule coverage_relative_error, rule present_count_pos)
  also have "\<dots> = (1 + 1 / 2 ^ 53) *
        (\<Sum>e\<leftarrow>present seg_mask. real (count_equal seg_mask (fst e)) / real (mask_size seg_mask))"
    by (rule sum_list_const_mult)
  also have "\<dots> \<le> (1 + 1 / 2 ^ 53) * 1"
    by (rule mult_left_mono) (rule present_fractions_le_1, simp)
  finally show ?thesis by simp
qed

text \<open>
  C5 (as the code behaves). For every segmentation mask the object summary is returned
  without error; each of its entries is a label other than \<open>background\<close> whose class has at
  least one pixel in the mask, with the float \<open>count / total_pixels\<close> of that class as
  coverage, which lies in (0, 1]; it has at most 5 entries; it is ordered by descending
  coverage, entries of equal coverage by ascending class index; and the exact sum of the
  coverages is at most \<open>1 + 2 ^ -53\<close>: the unrounded fractions sum to at most 1 and each
  coverage exceeds its fraction by at most the rounding of one division.
\<close>

theorem object_summary_properties:
  "\<exists>objs. summarize_objects seg_mask = Inr objs \<and>
     (\<forall>(label, cov)\<in>set objs.
        label \<noteq> ''background'' \<and>
        (\<exists>class_idx<length label_list.
           label_list ! class_idx = label \<and> 0 < count_equal seg_mask class_idx \<and>
           cov = truediv (count_equal seg_mask class_idx) (mask_size seg_mask)) \<and>
        0 < cov \<and> cov \<le> 1) \<and>
     length objs \<le> 5 \<and>
     sum_list (map snd objs) \<le> 1 + 1 / 2 ^ 53 \<and>
     sorted_wrt ranked_before objs"
proof -
  let ?items = "map (\<lambda>(class_idx, label). (label, coverage seg_mask class_idx)) (present seg_mask)"
  let ?ranked = "sorted_reverse snd ?items"
  let ?objs = "take 5 ?ranked"
  have eq: "summarize_objects seg_mask = Inr ?objs" by (rule summarize_objects_eq)
  have item: "label \<noteq> ''background'' \<and>
        (\<exists>class_idx<length label_list.
           label_list ! class_idx = label \<and> 0 < count_equal seg_mask class_idx \<and>
           cov = truediv (count_equal seg_mask class_idx) (mask_size seg_mask)) \<and>
        0 < cov \<and> cov \<le> 1" if "(label, cov) \<in> set ?items" for label cov
  proof -
    from that obtain class_idx where p: "(class_idx, label) \<in> set (present seg_mask)"
      and cov: "cov = coverage seg_mask class_idx" by auto
    from p have "class_idx < length label_list" "label_list ! class_idx = label"
      "0 < count_equal seg_mask class_idx" "label \<noteq> ''background''"
      by (auto simp: present_def in_set_enumerate_eq)
    with cov coverage_pos[of seg_mask class_idx] coverage_le_1[of seg_mask class_idx]
    show ?thesis by (auto simp: coverage_def)
  qed
  have members: "label \<noteq> ''background'' \<and>
        (\<exists>class_idx<length label_list.
           label_list ! class_idx = label \<and> 0 < count_equal seg_mask class_idx \<and>
           cov = truediv (count_equal seg_mask class_idx) (mask_size seg_mask)) \<and>
        0 < cov \<and> cov \<le> 1" if "(label, cov) \<in> set ?objs" for label cov
  proof -
    from that have "(label, cov) \<in> set ?items"
      using set_sorted_reverse[of snd ?items] by (auto dest: in_set_takeD)
    then show ?thesis by (rule item)
  qed
  have len: "length ?objs \<le> 5" by simp
  have nonneg: "0 \<le> x" if "x \<in> set (map snd ?ranked)" for x
  proof -
    from that obtain a where a: "a \<in> set ?ranked" "x = snd a" by auto
    then have "(fst a, x) \<in> set ?items"
      using set_sorted_reverse[of snd ?items] by simp
    from item[OF this] show ?thesis by simp
  qed
  have "sum_list (map snd ?objs) = sum_list (take 5 (map snd ?ranked))"
    by (simp only: take_map)
  also have "\<dots> \<le> sum_list (map snd ?ranked)"
    using nonneg by (rule sum_list_take_le)
  also have "\<dots> = sum_list (map snd ?items)"
    by (rule sum_list_sorted_reverse)
  also have "\<dots> = (\<Sum>e\<leftarrow>present seg_mask. coverage seg_mask (fst e))"
    by (simp add: comp_def case_prod_unfold)
  also have "\<dots> \<le> 1 + 1 / 2 ^ 53" by (rule present_coverage_bound)
  finally have total: "sum_list (map snd ?objs) \<le> 1 + 1 / 2 ^ 53" .
  have "sorted_wrt (\<lambda>a b. class_index (fst a) < class_index (fst b)) ?items"
    using present_ascending[of seg_mask] by (simp add: sorted_wrt_map case_prod_unfold)
  then have "sorted_wrt (\<lambda>a b. class_index (fst a) < class_index (fst b))
               (filter (\<lambda>x. snd x = k) ?ranked)" for k
    by (simp only: sorted_reverse_stable sorted_wrt_filter)
  with sorted_reverse_descending[of snd ?items]
  have "sorted_wrt (\<lambda>a b. snd b \<le> snd a \<and>
          (snd a = snd b \<longrightarrow> class_index (fst a) < class_index (fst b))) ?ranked"
    by (rule sorted_wrt_by_key_classes)
  then have "sorted_wrt ranked_before ?ranked"
    by (rule sorted_wrt_mono_rel[rotated]) (auto simp: ranked_before_def)
  then have order: "sorted_wrt ranked_before ?objs"
    by (rule sorted_wrt_take)
  from eq members len total order show ?thesis by blast
qed

theorem object_summary_properties_witness:
  "summarize_objects [[0, 1, 1, 2], [2, 3, 3, 3], [8, 8, 7, 7], [5, 9, - 1, 0]] =
     Inr [(''cystic_duct'', 3 / 16), (''liver'', 1 / 8), (''gallbladder'', 1 / 8),
          (''hook'', 1 / 8), (''scissors'', 1 / 8)] \<and>
   length [(''cystic_duct'', 3 / 16), (''liver'', 1 / 8), (''gallbladder'', 1 / 8),
          (''hook'', 1 / 8), (''scissors'', 1 / 8 :: real)] \<le> 5 \<and>
   sum_list (map snd [(''cystic_duct'', 3 / 16), (''liver'', 1 / 8), (''gallbladder'', 1 / 8),
          (''hook'', 1 / 8), (''scissors'', 1 / 8 :: real)]) \<le> 1 + 1 / 2 ^ 53 \<and>
   sorted_wrt ranked_before
     [(''cystic_duct'', 3 / 16), (''liver'', 1 / 8), (''gallbladder'', 1 / 8),
      (''hook'', 1 / 8), (''scissors'', 1 / 8)]"
proof -
  let ?m = "[[0, 1, 1, 2], [2, 3, 3, 3], [8, 8, 7, 7], [5, 9, - 1, 0]] :: mask"
  let ?l = "[(''cystic_duct'', 3 / 16), (''liver'', 1 / 8), (''gallbladder'', 1 / 8),
          (''hook'', 1 / 8), (''scissors'', 1 / 8 :: real)]"
  have e: "summarize_objects ?m = Inr ?l" by code_simp
  from object_summary_properties[of ?m] obtain objs where
    o: "summarize_objects ?m = Inr objs" and
    n: "length objs \<le> 5" and
    t: "sum_list (map snd objs) \<le> 1 + 1 / 2 ^ 53" and
    s: "sorted_wrt ranked_before objs" by blast
  from o e have "objs = ?l" by simp
  with n t s e show ?thesis by blast
qed

text \<open>
  C5 (as the specification states it) fails in the sum: on a mask of one row of 13 pixels,
  4 of class 1 and 3 each of classes 2, 3 and 4, the four coverages are the doubles nearest
  to 4/13 and 3/13, and they sum to more than 1.
\<close>

theorem coverage_sum_exceeds_one:
  "summarize_objects [[1, 1, 1, 1, 2, 2, 2, 3, 3, 3, 4, 4, 4]] =
     Inr [(''liver'', 1385722962267845 / 2 ^ 52),
          (''gallbladder'', 4157168886803535 / 2 ^ 54),
          (''cystic_duct'', 4157168886803535 / 2 ^ 54),
          (''cystic_artery'', 4157168886803535 / 2 ^ 54)] \<and>
   1 < sum_list (map snd
         [(''liver'', 1385722962267845 / 2 ^ 52 :: real),
          (''gallbladder'', 4157168886803535 / 2 ^ 54),
          (''cystic_duct'', 4157168886803535 / 2 ^ 54),
          (''cystic_artery'', 4157168886803535 / 2 ^ 54)])"
  by code_simp

section \<open>Properties of frame analysis\<close>

lemma preprocess_image_eq:
  "preprocess_image cfg img =
     (if accepted_shape cfg img then Inr [1, 3, image_size cfg, image_size cfg]
      else Inl RuntimeError)"
  by (auto simp: preprocess_image_def permute_2_0_1_def unsqueeze_0_def interpolate_bilinear_def
      accepted_shape_def split: list.splits)

lemma preprocess_accepted: "preprocess_image cfg img = Inr tensor \<Longrightarrow> accepted_shape cfg img"
  by (simp add: preprocess_image_eq split: if_splits)

lemma analyze_frame_eq:
  "analyze_frame cfg img seg_mask phase_probs quality_score =
     (if accepted_shape cfg img then
        Inr \<lparr>phase = projr (max_by_get (phase_probabilities_dict phase_probs)),
             phase_probabilities = phase_probabilities_dict phase_probs,
             segmentation_mask = seg_mask,
             detected_objects = projr (summarize_objects seg_mask),
             importance_score =
               compute_importance quality_score
                 (calculate_phase_score (phase_probabilities_dict phase_probs))
                 (calculate_object_score (map fst (projr (summarize_objects seg_mask))))
                 ai_bonus_default,
             phase_score = calculate_phase_score (phase_probabilities_dict phase_probs),
             object_score = calculate_object_score (map fst (projr (summarize_objects seg_mask)))\<rparr>
      else Inl RuntimeError)"
proof -
  obtain k where k: "max_by_get (phase_probabilities_dict phase_probs) = Inr k"
    using max_by_get_phase by blast
  obtain objs where objs: "summarize_objects seg_mask = Inr objs"
    using summarize_objects_eq by blast
  show ?thesis
    by (simp add: analyze_frame_def preprocess_image_eq k objs Let_def)
qed

text \<open>The scores of a returned record are those of the scoring engine on the record's own
  phase probabilities and on the labels of its object summary, coverage set aside.\<close>

lemma analyze_frame_scores:
  assumes "analyze_frame cfg img seg_mask phase_probs quality_score = Inr r"
  shows "phase_score r = calculate_phase_score (phase_probabilities r)"
    and "object_score r = calculate_object_score (map fst (detected_objects r))"
    and "importance_score r =
           compute_importance quality_score (phase_score r) (object_score r) ai_bonus_default"
  using assms by (auto simp: analyze_frame_eq split: if_splits)

lemma analyze_frame_accepted:
  "analyze_frame cfg img seg_mask phase_probs quality_score = Inr r \<Longrightarrow> accepted_shape cfg img"
  by (auto simp: analyze_frame_eq split: if_splits)

text \<open>The forward passes on shapes: the UNet returns logits of the height and width of its
  input when both are at least 16, which its four poolings need.\<close>

lemma bind_result_Inr [simp]: "bind_result (Inr v) f = f v"
  by (simp add: bind_result_def)

lemma bind_result_Inl [simp]: "bind_result (Inl e) f = Inl e"
  by (simp add: bind_result_def)

lemma conv_block_ok:
  "0 < h \<Longrightarrow> 0 < w \<Longrightarrow> conv_block i out [n, i, h, w] = Inr [n, out, h, w]"
  by (simp add: conv_block_def conv2d_k3_p1_def)

lemma max_pool2d_2_ok:
  "2 \<le> h \<Longrightarrow> 2 \<le> w \<Longrightarrow> max_pool2d_2 [n, c, h, w] = Inr [n, c, h div 2, w div 2]"
  by (simp add: max_pool2d_2_def div_eq_0_iff)

lemma DecoderBlock_forward_ok:
  assumes "i = out + out" "0 < out" "0 < h" "0 < w" "0 < sh" "0 < sw"
  shows "DecoderBlock_forward i out [n, i, h, w] [n, out, sh, sw] = Inr [n, out, sh, sw]"
  using assms
  by (simp add: DecoderBlock_forward_def conv_transpose2d_k2_s2_def last_two_def
      interpolate_to_def interpolate_bilinear_def cat_dim1_def conv_block_ok)

lemma halvings:
  fixes h :: nat
  assumes "16 \<le> h"
  shows "2 \<le> h" "2 \<le> h div 2" "2 \<le> h div 2 div 2" "2 \<le> h div 2 div 2 div 2"
    "0 < h div 2 div 2 div 2 div 2"
  using assms by simp_all

lemma UNetSegmenter_forward_ok:
  assumes "16 \<le> h" and "16 \<le> w"
  shows "UNetSegmenter_forward k [n, 3, h, w] = Inr [n, k, h, w]"
proof -
  let ?h1 = "h div 2" and ?w1 = "w div 2"
  let ?h2 = "h div 2 div 2" and ?w2 = "w div 2 div 2"
  let ?h3 = "h div 2 div 2 div 2" and ?w3 = "w div 2 div 2 div 2"
  let ?h4 = "h div 2 div 2 div 2 div 2" and ?w4 = "w div 2 div 2 div 2 div 2"
  note h = halvings[OF assms(1)] and w = halvings[OF assms(2)]
  have pos: "2 \<le> x \<Longrightarrow> 0 < x" for x :: nat by simp
  note s1 = conv_block_ok[OF pos[OF h(1)] pos[OF w(1)], of 3 64 n]
  note p1 = max_pool2d_2_ok[OF h(1) w(1), of n 64]
  note s2 = conv_block_ok[OF pos[OF h(2)] pos[OF w(2)], of 64 128 n]
  note p2 = max_pool2d_2_ok[OF h(2) w(2), of n 128]
  note s3 = conv_block_ok[OF pos[OF h(3)] pos[OF w(3)], of 128 256 n]
  note p3 = max_pool2d_2_ok[OF h(3) w(3), of n 256]
  note s4 = conv_block_ok[OF pos[OF h(4)] pos[OF w(4)], of 256 512 n]
  note p4 = max_pool2d_2_ok[OF h(4) w(4), of n 512]
  note b = conv_block_ok[OF h(5) w(5), of 512 1024 n]
  have c4: "(1024::nat) = 512 + 512" "(0::nat) < 512" by simp_all
  have c3: "(512::nat) = 256 + 256" "(0::nat) < 256" by simp_all
  have c2: "(256::nat) = 128 + 128" "(0::nat) < 128" by simp_all
  have c1: "(128::nat) = 64 + 64" "(0::nat) < 64" by simp_all
  note d4 = DecoderBlock_forward_ok[OF c4 h(5) w(5) pos[OF h(4)] pos[OF w(4)], of n]
  note d3 = DecoderBlock_forward_ok[OF c3 pos[OF h(4)] pos[OF w(4)] pos[OF h(3)] pos[OF w(3)], of n]
  note d2 = DecoderBlock_forward_ok[OF c2 pos[OF h(3)] pos[OF w(3)] pos[OF h(2)] pos[OF w(2)], of n]
  note d1 = DecoderBlock_forward_ok[OF c1 pos[OF h(2)] pos[OF w(2)] pos[OF h(1)] pos[OF w(1)], of n]
  have head: "conv2d_k1 64 k [n, 64, h, w] = Inr [n, k, h, w]"
    using pos[OF h(1)] pos[OF w(1)] by (simp add: conv2d_k1_def)
  show ?thesis
    unfolding UNetSegmenter_forward_def
    by (simp only: s1 p1 s2 p2 s3 p3 s4 p4 b d4 d3 d2 d1 head bind_result_Inr)
qed

lemma PhaseClassifier_forward_ok:
  "0 < h \<Longrightarrow> 0 < w \<Longrightarrow> PhaseClassifier_forward k [n, 3, h, w] = Inr [n, k]"
  by (simp add: PhaseClassifier_forward_def resnet18_features_def linear_def)


lemma last_two_4: "last_two [a, b, c, d] = [c, d]"
  by (simp add: last_two_def)

lemma analyze_frame_call_rejects:
  "\<not> accepted_shape cfg img \<Longrightarrow>
   analyze_frame_call cfg segmentation_model phase_model img seg_mask phase_probs q =
     Inl RuntimeError"
  by (simp add: analyze_frame_call_def preprocess_image_eq)

lemma analyze_frame_call_accepts:
  assumes "accepted_shape cfg img" and "16 \<le> image_size cfg"
  shows "analyze_frame_call cfg (UNetSegmenter_forward k) (PhaseClassifier_forward c) img
           seg_mask phase_probs q = analyze_frame cfg img seg_mask phase_probs q"
proof -
  let ?s = "image_size cfg"
  have pos: "0 < ?s" using assms(2) by simp
  have p: "preprocess_image cfg img = Inr [1, 3, ?s, ?s]"
    using assms(1) by (simp add: preprocess_image_eq)
  have u: "UNetSegmenter_forward k [1, 3, ?s, ?s] = Inr [1, k, ?s, ?s]"
    using assms(2) assms(2) by (rule UNetSegmenter_forward_ok)
  have f: "PhaseClassifier_forward c [1, 3, ?s, ?s] = Inr [1, c]"
    using pos pos by (rule PhaseClassifier_forward_ok)
  show ?thesis
    unfolding analyze_frame_call_def
    by (simp only: p u f bind_result_Inr last_two_4 simp_thms if_False)
qed

text \<open>
  C8 (as the code behaves). Whatever the two models do, a call of \<open>analyze_frame\<close> raises on
  every image array that does not have three dimensions, or has an empty height or width, or
  a number of channels other than 3 and 1: preprocessing fails before any model runs, and no
  frame record is produced. Arrays of shape H x W x 1 are not among them.
\<close>

theorem malformed_input_rejected:
  "\<not> accepted_shape cfg img \<Longrightarrow>
   isl (analyze_frame_call cfg segmentation_model phase_model img seg_mask phase_probs
          quality_score)"
  by (simp add: analyze_frame_call_rejects)

theorem malformed_input_rejected_witness:
  "\<not> accepted_shape \<lparr>endovit_segmentation_checkpoint = None, image_size = 16\<rparr> [4, 4, 4] \<and>
   isl (analyze_frame_call \<lparr>endovit_segmentation_checkpoint = None, image_size = 16\<rparr>
          (UNetSegmenter_forward 9) (PhaseClassifier_forward 6) [4, 4, 4]
          [[0, 1], [1, 2]] [0.1, 0.2, 0.3, 0.3, 0.05, 0.05] 90)"
proof -
  have h: "\<not> accepted_shape \<lparr>endovit_segmentation_checkpoint = None, image_size = 16\<rparr> [4, 4, 4]"
    by (simp add: accepted_shape_def)
  show ?thesis
    using h malformed_input_rejected[OF h, of "UNetSegmenter_forward 9"
        "PhaseClassifier_forward 6" "[[0, 1], [1, 2]]" "[0.1, 0.2, 0.3, 0.3, 0.05, 0.05]" 90]
    by blast
qed

text \<open>
  C8 (as the specification states it) fails: an array of shape 4 x 4 x 1 is not a
  three-channel image, yet with an image size of 16 and the default networks a call of
  \<open>analyze_frame\<close> raises nothing and returns a frame record. The single channel is broadcast
  against the three-channel mean and std, so that both networks receive a tensor of shape
  1 x 3 x 16 x 16.
\<close>

theorem single_channel_frame_accepted:
  "analyze_frame_call \<lparr>endovit_segmentation_checkpoint = None, image_size = 16\<rparr>
     (UNetSegmenter_forward 9) (PhaseClassifier_forward 6) [4, 4, 1]
     (replicate 8 (replicate 16 0) @ replicate 8 (replicate 16 1))
     [0.1, 0.2, 0.3, 0.3, 0.05, 0.05] 90 =
   Inr \<lparr>phase = ''exposure'',
        phase_probabilities =
          [(''pre_op'', 1 / 10), (''port_setup'', 1 / 5), (''exposure'', 3 / 10),
           (''critical_dissection'', 3 / 10), (''clip_and_divide'', 1 / 20), (''closure'', 1 / 20)],
        segmentation_mask = replicate 8 (replicate 16 0) @ replicate 8 (replicate 16 1),
        detected_objects = [(''liver'', 1 / 2)],
        importance_score = 1709 / 24, phase_score = 5 / 8, object_score = 2 / 15\<rparr>"
  by code_simp

text \<open>
  C4. When the image passes preprocessing and the phase model's output vector does not have
  the length of the phase taxonomy (which is 6), \<open>analyze_frame\<close> returns a record whose
  \<open>phase_probabilities\<close> assign 1/N to each of the N taxonomy phases, in taxonomy order, hence
  with the whole taxonomy as key set and 1/6 as every value.
\<close>

theorem fallback_distribution:
  assumes "preprocess_image cfg img = Inr tensor"
    and "length phase_probs \<noteq> length PHASE_DEFINITIONS"
  shows "\<exists>r. analyze_frame cfg img seg_mask phase_probs quality_score = Inr r \<and>
           phase_probabilities r =
             map (\<lambda>(name, share). (name, 1 / real (length PHASE_DEFINITIONS))) PHASE_DEFINITIONS \<and>
           map fst (phase_probabilities r) = map fst PHASE_DEFINITIONS \<and>
           length PHASE_DEFINITIONS = 6 \<and>
           (\<forall>(name, prob)\<in>set (phase_probabilities r). prob = 1 / 6)"
proof -
  have len: "length PHASE_DEFINITIONS = 6" by (simp add: PHASE_DEFINITIONS_def)
  with assms(2) have "phase_probabilities_dict phase_probs =
      map (\<lambda>phase. (phase, 1 / 6)) (map fst PHASE_DEFINITIONS)"
    by (simp add: phase_probabilities_dict_eq)
  with preprocess_accepted[OF assms(1)] len show ?thesis
    by (auto simp: analyze_frame_eq comp_def case_prod_unfold)
qed

theorem fallback_distribution_witness:
  "preprocess_image \<lparr>endovit_segmentation_checkpoint = None, image_size = 2\<rparr> [4, 4, 3] = Inr [1, 3, 2, 2] \<and>
   length [0.5, 0.5 :: real] \<noteq> length PHASE_DEFINITIONS \<and>
   (\<exists>r. analyze_frame \<lparr>endovit_segmentation_checkpoint = None, image_size = 2\<rparr> [4, 4, 3]
           [[0, 1], [1, 2]] [0.5, 0.5] 90 = Inr r \<and>
        phase_probabilities r =
          map (\<lambda>(name, share). (name, 1 / real (length PHASE_DEFINITIONS))) PHASE_DEFINITIONS)"
proof -
  have h1: "preprocess_image \<lparr>endovit_segmentation_checkpoint = None, image_size = 2\<rparr> [4, 4, 3] = Inr [1, 3, 2, 2]"
    by (simp add: preprocess_image_eq accepted_shape_def)
  have h2: "length [0.5, 0.5 :: real] \<noteq> length PHASE_DEFINITIONS"
    by (simp add: PHASE_DEFINITIONS_def)
  show ?thesis
    using h1 h2 fallback_distribution[OF h1 h2, of "[[0, 1], [1, 2]]" 90] by blast
qed


text \<open>The running maximum of \<open>max\<close> is the first of the largest values seen so far.\<close>

lemma max_loop_first_maximum:
  "(\<forall>x\<in>set before. snd x < maxval) \<Longrightarrow> (\<forall>x\<in>set mid. snd x \<le> maxval) \<Longrightarrow>
   \<exists>pre v post. before @ (maxitem, maxval) # mid @ rest = pre @ (max_loop rest maxitem maxval, v) # post \<and>
     (\<forall>x\<in>set pre. snd x < v) \<and> (\<forall>x\<in>set post. snd x \<le> v)"
proof (induction rest arbitrary: before mid maxitem maxval)
  case Nil
  then show ?case by auto
next
  case (Cons e rest)
  obtain item val where e: "e = (item, val)" by (cases e)
  show ?case
  proof (cases "val > maxval")
    case True
    have "\<forall>x\<in>set (before @ (maxitem, maxval) # mid). snd x < val"
      using Cons.prems True by fastforce
    moreover have "\<forall>x\<in>set ([] :: ('a \<times> real) list). snd x \<le> val" by simp
    ultimately obtain pre v post where
      "(before @ (maxitem, maxval) # mid) @ (item, val) # [] @ rest =
         pre @ (max_loop rest item val, v) # post"
      "\<forall>x\<in>set pre. snd x < v" "\<forall>x\<in>set post. snd x \<le> v"
      using Cons.IH[of "before @ (maxitem, maxval) # mid" val "[]" item] by blast
    with True e show ?thesis by auto
  next
    case False
    have "\<forall>x\<in>set (mid @ [(item, val)]). snd x \<le> maxval"
      using Cons.prems False by auto
    then obtain pre v post where
      "before @ (maxitem, maxval) # (mid @ [(item, val)]) @ rest =
         pre @ (max_loop rest maxitem maxval, v) # post"
      "\<forall>x\<in>set pre. snd x < v" "\<forall>x\<in>set post. snd x \<le> v"
      using Cons.IH[of before maxval "mid @ [(item, val)]" maxitem] Cons.prems(1) by blast
    with False e show ?thesis by auto
  qed
qed

lemma max_by_get_first_maximum:
  "max_by_get d = Inr k \<Longrightarrow>
   \<exists>pre v post. d = pre @ (k, v) # post \<and> (\<forall>x\<in>set pre. snd x < v) \<and> (\<forall>x\<in>set post. snd x \<le> v)"
proof -
  assume a: "max_by_get d = Inr k"
  then obtain item val rest where d: "d = (item, val) # rest" and k: "k = max_loop rest item val"
    by (auto simp: max_by_get_def split: list.splits)
  from max_loop_first_maximum[of "[]" val "[]" item rest] d k show ?thesis by auto
qed

text \<open>
  C7. In a returned record the keys of \<open>phase_probabilities\<close> are the taxonomy phases in
  taxonomy order, and the entry of the phase label splits them so that every phase before it
  has a strictly smaller probability and every phase after it a probability that is not
  larger: the label is the phase of highest probability, the first one in taxonomy order
  among equals.
\<close>

theorem phase_label_first_argmax:
  assumes "analyze_frame cfg img seg_mask phase_probs quality_score = Inr r"
  shows "map fst (phase_probabilities r) = map fst PHASE_DEFINITIONS \<and>
         (\<exists>pre v post. phase_probabilities r = pre @ (phase r, v) # post \<and>
            (\<forall>x\<in>set pre. snd x < v) \<and> (\<forall>x\<in>set post. snd x \<le> v))"
proof -
  obtain k where k: "max_by_get (phase_probabilities_dict phase_probs) = Inr k"
    using max_by_get_phase by blast
  from assms have acc: "accepted_shape cfg img"
    by (rule analyze_frame_accepted)
  with assms k have "phase r = k" "phase_probabilities r = phase_probabilities_dict phase_probs"
    by (auto simp: analyze_frame_eq)
  with max_by_get_first_maximum[OF k] keys_phase_probabilities_dict[of phase_probs]
  show ?thesis by simp
qed

theorem phase_label_first_argmax_witness:
  "analyze_frame \<lparr>endovit_segmentation_checkpoint = None, image_size = 2\<rparr> [4, 4, 3]
       [[0, 1], [1, 2]] [0.1, 0.3, 0.3, 0.2, 0.05, 0.05] 90 = Inr
     \<lparr>phase = ''port_setup'',
        phase_probabilities =
          [(''pre_op'', 1 / 10), (''port_setup'', 3 / 10), (''exposure'', 3 / 10),
           (''critical_dissection'', 1 / 5), (''clip_and_divide'', 1 / 20), (''closure'', 1 / 20)],
        segmentation_mask = [[0, 1], [1, 2]],
        detected_objects = [(''liver'', 1 / 2), (''gallbladder'', 1 / 4)],
        importance_score = 609 / 8, phase_score = 23 / 40, object_score = 2 / 5\<rparr> \<and>
   map fst (phase_probabilities
     \<lparr>phase = ''port_setup'',
        phase_probabilities =
          [(''pre_op'', 1 / 10), (''port_setup'', 3 / 10), (''exposure'', 3 / 10),
           (''critical_dissection'', 1 / 5), (''clip_and_divide'', 1 / 20), (''closure'', 1 / 20)],
        segmentation_mask = [[0, 1], [1, 2]],
        detected_objects = [(''liver'', 1 / 2), (''gallbladder'', 1 / 4)],
        importance_score = 609 / 8, phase_score = 23 / 40, object_score = 2 / 5\<rparr>) =
     map fst PHASE_DEFINITIONS \<and>
   phase
     \<lparr>phase = ''port_setup'',
        phase_probabilities =
          [(''pre_op'', 1 / 10), (''port_setup'', 3 / 10), (''exposure'', 3 / 10),
           (''critical_dissection'', 1 / 5), (''clip_and_divide'', 1 / 20), (''closure'', 1 / 20)],
        segmentation_mask = [[0, 1], [1, 2]],
        detected_objects = [(''liver'', 1 / 2), (''gallbladder'', 1 / 4)],
        importance_score = 609 / 8, phase_score = 23 / 40, object_score = 2 / 5\<rparr> =
     ''port_setup''"
proof -
  have h1: "analyze_frame \<lparr>endovit_segmentation_checkpoint = None, image_size = 2\<rparr> [4, 4, 3]
       [[0, 1], [1, 2]] [0.1, 0.3, 0.3, 0.2, 0.05, 0.05] 90 = Inr
     \<lparr>phase = ''port_setup'',
        phase_probabilities =
          [(''pre_op'', 1 / 10), (''port_setup'', 3 / 10), (''exposure'', 3 / 10),
           (''critical_dissection'', 1 / 5), (''clip_and_divide'', 1 / 20), (''closure'', 1 / 20)],
        segmentation_mask = [[0, 1], [1, 2]],
        detected_objects = [(''liver'', 1 / 2), (''gallbladder'', 1 / 4)],
        importance_score = 609 / 8, phase_score = 23 / 40, object_score = 2 / 5\<rparr>"
    by code_simp
  show ?thesis
    using h1 phase_label_first_argmax[OF h1] by simp
qed


lemma weight_nonneg: "0 \<le> dict_get PHASE_WEIGHTS ph 0.3"
  by (simp add: dict_get_def PHASE_WEIGHTS_def)

lemma priority_nonneg: "0 \<le> dict_get OBJECT_PRIORITIES l 0.2"
  by (simp add: dict_get_def OBJECT_PRIORITIES_def)

lemma phase_score_in_unit:
  assumes "\<forall>(ph, p)\<in>set d. 0 \<le> p"
  shows "0 \<le> calculate_phase_score d \<and> calculate_phase_score d \<le> 1"
proof -
  have "0 \<le> (\<Sum>(ph, p)\<leftarrow>d. p * dict_get PHASE_WEIGHTS ph 0.3)"
    using assms weight_nonneg by (intro sum_list_nonneg) auto
  then show ?thesis
    by (simp add: calculate_phase_score_def phase_score_loop_sum)
qed

lemma object_score_in_unit:
  "0 \<le> calculate_object_score objs \<and> calculate_object_score objs \<le> 1"
proof -
  have "0 \<le> (\<Sum>l\<leftarrow>objs. dict_get OBJECT_PRIORITIES l 0.2)"
    using priority_nonneg by (intro sum_list_nonneg) auto
  then show ?thesis
    by (simp add: calculate_object_score_def object_score_loop_sum)
qed

lemma importance_in_range:
  "0 \<le> compute_importance q p ob b \<and> compute_importance q p ob b \<le> 100"
  by (simp add: compute_importance_def Let_def max_def min_def)

lemma phase_probabilities_dict_nonneg:
  assumes "\<forall>p\<in>set probs. 0 \<le> p"
  shows "\<forall>(ph, p)\<in>set (phase_probabilities_dict probs). 0 \<le> p"
  using assms by (auto simp: phase_probabilities_dict_eq dest: set_zip_rightD)

text \<open>
  C3. When the phase model's probabilities are non-negative, every record returned by
  \<open>analyze_frame\<close>, for any image and any quality score, has an importance score in
  [0, 100], a phase score in [0, 1] and an object score in [0, 1].
\<close>

theorem score_bounds:
  assumes "analyze_frame cfg img seg_mask phase_probs quality_score = Inr r"
    and "\<forall>p\<in>set phase_probs. 0 \<le> p"
  shows "0 \<le> importance_score r \<and> importance_score r \<le> 100 \<and>
         0 \<le> phase_score r \<and> phase_score r \<le> 1 \<and>
         0 \<le> object_score r \<and> object_score r \<le> 1"
proof -
  from assms(1) have acc: "accepted_shape cfg img"
    by (rule analyze_frame_accepted)
  note ps = phase_score_in_unit[OF phase_probabilities_dict_nonneg[OF assms(2)]]
  from assms(1) acc ps object_score_in_unit importance_in_range
  show ?thesis by (auto simp: analyze_frame_eq)
qed

theorem score_bounds_witness:
  "analyze_frame \<lparr>endovit_segmentation_checkpoint = None, image_size = 2\<rparr> [4, 4, 3]
       [[0, 1], [1, 2]] [0.1, 0.2, 0.3, 0.3, 0.05, 0.05] (- 40) =
     Inr 
     \<lparr>phase = ''exposure'',
        phase_probabilities =
          [(''pre_op'', 1 / 10), (''port_setup'', 1 / 5), (''exposure'', 3 / 10),
           (''critical_dissection'', 3 / 10), (''clip_and_divide'', 1 / 20), (''closure'', 1 / 20)],
        segmentation_mask = [[0, 1], [1, 2]],
        detected_objects = [(''liver'', 1 / 2), (''gallbladder'', 1 / 4)],
        importance_score = 207 / 8, phase_score = 5 / 8, object_score = 2 / 5\<rparr> \<and>
   0 \<le> importance_score 
     \<lparr>phase = ''exposure'',
        phase_probabilities =
          [(''pre_op'', 1 / 10), (''port_setup'', 1 / 5), (''exposure'', 3 / 10),
           (''critical_dissection'', 3 / 10), (''clip_and_divide'', 1 / 20), (''closure'', 1 / 20)],
        segmentation_mask = [[0, 1], [1, 2]],
        detected_objects = [(''liver'', 1 / 2), (''gallbladder'', 1 / 4)],
        importance_score = 207 / 8, phase_score = 5 / 8, object_score = 2 / 5\<rparr> \<and>
   importance_score 
     \<lparr>phase = ''exposure'',
        phase_probabilities =
          [(''pre_op'', 1 / 10), (''port_setup'', 1 / 5), (''exposure'', 3 / 10),
           (''critical_dissection'', 3 / 10), (''clip_and_divide'', 1 / 20), (''closure'', 1 / 20)],
        segmentation_mask = [[0, 1], [1, 2]],
        detected_objects = [(''liver'', 1 / 2), (''gallbladder'', 1 / 4)],
        importance_score = 207 / 8, phase_score = 5 / 8, object_score = 2 / 5\<rparr> \<le> 100 \<and>
   0 \<le> phase_score 
     \<lparr>phase = ''exposure'',
        phase_probabilities =
          [(''pre_op'', 1 / 10), (''port_setup'', 1 / 5), (''exposure'', 3 / 10),
           (''critical_dissection'', 3 / 10), (''clip_and_divide'', 1 / 20), (''closure'', 1 / 20)],
        segmentation_mask = [[0, 1], [1, 2]],
        detected_objects = [(''liver'', 1 / 2), (''gallbladder'', 1 / 4)],
        importance_score = 207 / 8, phase_score = 5 / 8, object_score = 2 / 5\<rparr> \<and>
   phase_score 
     \<lparr>phase = ''exposure'',
        phase_probabilities =
          [(''pre_op'', 1 / 10), (''port_setup'', 1 / 5), (''exposure'', 3 / 10),
           (''critical_dissection'', 3 / 10), (''clip_and_divide'', 1 / 20), (''closure'', 1 / 20)],
        segmentation_mask = [[0, 1], [1, 2]],
        detected_objects = [(''liver'', 1 / 2), (''gallbladder'', 1 / 4)],
        importance_score = 207 / 8, phase_score = 5 / 8, object_score = 2 / 5\<rparr> \<le> 1 \<and>
   0 \<le> object_score 
     \<lparr>phase = ''exposure'',
        phase_probabilities =
          [(''pre_op'', 1 / 10), (''port_setup'', 1 / 5), (''exposure'', 3 / 10),
           (''critical_dissection'', 3 / 10), (''clip_and_divide'', 1 / 20), (''closure'', 1 / 20)],
        segmentation_mask = [[0, 1], [1, 2]],
        detected_objects = [(''liver'', 1 / 2), (''gallbladder'', 1 / 4)],
        importance_score = 207 / 8, phase_score = 5 / 8, object_score = 2 / 5\<rparr> \<and>
   object_score 
     \<lparr>phase = ''exposure'',
        phase_probabilities =
          [(''pre_op'', 1 / 10), (''port_setup'', 1 / 5), (''exposure'', 3 / 10),
           (''critical_dissection'', 3 / 10), (''clip_and_divide'', 1 / 20), (''closure'', 1 / 20)],
        segmentation_mask = [[0, 1], [1, 2]],
        detected_objects = [(''liver'', 1 / 2), (''gallbladder'', 1 / 4)],
        importance_score = 207 / 8, phase_score = 5 / 8, object_score = 2 / 5\<rparr> \<le> 1"
proof -
  have h1: "analyze_frame \<lparr>endovit_segmentation_checkpoint = None, image_size = 2\<rparr> [4, 4, 3]
       [[0, 1], [1, 2]] [0.1, 0.2, 0.3, 0.3, 0.05, 0.05] (- 40) =
     Inr 
     \<lparr>phase = ''exposure'',
        phase_probabilities =
          [(''pre_op'', 1 / 10), (''port_setup'', 1 / 5), (''exposure'', 3 / 10),
           (''critical_dissection'', 3 / 10), (''clip_and_divide'', 1 / 20), (''closure'', 1 / 20)],
        segmentation_mask = [[0, 1], [1, 2]],
        detected_objects = [(''liver'', 1 / 2), (''gallbladder'', 1 / 4)],
        importance_score = 207 / 8, phase_score = 5 / 8, object_score = 2 / 5\<rparr>" by code_simp
  have h2: "\<forall>p\<in>set [0.1, 0.2, 0.3, 0.3, 0.05, 0.05 :: real]. 0 \<le> p" by simp
  show ?thesis
    using h1 score_bounds[OF h1 h2] by blast
qed


section \<open>Properties of backend selection\<close>

text \<open>Selection never raises, and the recorded identifier names the network that was
  built.\<close>

lemma backend_never_fails:
  "\<exists>model self. init_segmentation env cfg = Inr (model, self) \<and>
     segmentation_backend self =
       (case model of EndoVITSemanticSegmenter \<Rightarrow> ''endovit'' | UNetSegmenter \<Rightarrow> ''unet'')"
  by (auto simp: init_segmentation_def build_segmentation_model_def build_unet_def
      is_endovit_supported_def EndoVITSemanticSegmenter_init_def split: sum.splits option.splits)

text \<open>The advanced backend is selected when its checkpoint exists, its dependencies are
  present and its construction succeeds.\<close>

lemma endovit_selected:
  "endovit_segmentation_checkpoint cfg = Some checkpoint \<Longrightarrow> path_exists env checkpoint \<Longrightarrow>
   dpt_available env \<Longrightarrow> endovit_network_init env checkpoint = Inr () \<Longrightarrow>
   \<exists>self. init_segmentation env cfg = Inr (EndoVITSemanticSegmenter, self) \<and>
     segmentation_backend self = ''endovit''"
  by (auto simp: init_segmentation_def build_segmentation_model_def build_unet_def
      is_endovit_supported_def EndoVITSemanticSegmenter_init_def split: sum.splits option.splits)

text \<open>
  C6. When the configured EndoViT checkpoint does not exist on disk, or the EndoViT
  dependencies are unavailable, or the construction of the EndoViT network raises, backend
  selection raises nothing: it returns the default UNet network and records \<open>"unet"\<close> as the
  chosen backend identifier, leaving the configuration as it was.
\<close>

theorem backend_fallback:
  assumes "endovit_segmentation_checkpoint cfg = Some checkpoint"
    and "\<not> path_exists env checkpoint \<or> \<not> dpt_available env \<or>
         isl (endovit_network_init env checkpoint)"
  shows "\<exists>self. init_segmentation env cfg = Inr (UNetSegmenter, self) \<and>
           segmentation_backend self = ''unet'' \<and> config self = cfg"
  using assms
  by (auto simp: init_segmentation_def build_segmentation_model_def build_unet_def
      is_endovit_supported_def EndoVITSemanticSegmenter_init_def isl_def split: sum.splits)

theorem backend_fallback_witness:
  "endovit_segmentation_checkpoint
      \<lparr>endovit_segmentation_checkpoint = Some ''endovit_seg.pth'', image_size = 512\<rparr>
      = Some ''endovit_seg.pth'' \<and>
   isl (endovit_network_init
      \<lparr>path_exists = (\<lambda>p. True), dpt_available = True,
        endovit_network_init = (\<lambda>p. Inl RuntimeError)\<rparr>
      ''endovit_seg.pth'') \<and>
   (\<exists>self. init_segmentation
      \<lparr>path_exists = (\<lambda>p. True), dpt_available = True,
        endovit_network_init = (\<lambda>p. Inl RuntimeError)\<rparr>
      \<lparr>endovit_segmentation_checkpoint = Some ''endovit_seg.pth'', image_size = 512\<rparr>
        = Inr (UNetSegmenter, self) \<and>
      segmentation_backend self = ''unet'')"
proof -
  let ?cfg = "\<lparr>endovit_segmentation_checkpoint = Some ''endovit_seg.pth'', image_size = 512\<rparr>"
  let ?env = "\<lparr>path_exists = (\<lambda>p. True), dpt_available = True,
               endovit_network_init = (\<lambda>p. Inl RuntimeError)\<rparr>"
  have h1: "endovit_segmentation_checkpoint ?cfg = Some ''endovit_seg.pth''" by simp
  have h2: "\<not> path_exists ?env ''endovit_seg.pth'' \<or> \<not> dpt_available ?env \<or>
         isl (endovit_network_init ?env ''endovit_seg.pth'')" by simp
  show ?thesis
    using h1 backend_fallback[OF h1 h2] by auto
qed

section \<open>Properties of preview rendering\<close>

lemma zip_map_self: "zip xs (map f xs) = map (\<lambda>x. (x, f x)) xs"
  by (induction xs) simp_all

lemma paint_map:
  "paint seg_mask idx color (map (map f) seg_mask) =
     map (map (\<lambda>p. if p = int idx then color else f p)) seg_mask"
  by (simp add: paint_def zip_map_self comp_def)

lemma preview_loop_map:
  "preview_loop seg_mask palette es (map (map f) seg_mask) =
     map (map (\<lambda>p. pixel_after palette es (f p) p)) seg_mask"
proof (induction es arbitrary: f)
  case Nil
  then show ?case by simp
next
  case (Cons e es)
  obtain idx label where e: "e = (idx, label)" by (cases e)
  show ?case
  proof (cases "label = ''background''")
    case True
    with e Cons.IH[of f] show ?thesis by simp
  next
    case False
    with e Cons.IH[of "\<lambda>p. if p = int idx then dict_get palette (int idx) (255, 255, 255) else f p"]
    show ?thesis by (simp add: paint_map)
  qed
qed

lemma enumerate_label_list:
  "enumerate 0 label_list =
     [(0, ''background''), (1, ''liver''), (2, ''gallbladder''), (3, ''cystic_duct''),
      (4, ''cystic_artery''), (5, ''common_bile_duct''), (6, ''grasper''), (7, ''hook''),
      (8, ''scissors'')]"
  by (simp add: label_list_eq enumerate_eq_zip upt_rec)

lemma pixel_after_taxonomy:
  "pixel_after palette (enumerate 0 label_list) (0, 0, 0) p =
     (if 0 < p \<and> p < int (length label_list)
      then (case map_of palette p of None \<Rightarrow> (255, 255, 255) | Some color \<Rightarrow> color)
      else (0, 0, 0))"
  unfolding enumerate_label_list
  by (auto simp: label_list_eq dict_get_def)

text \<open>
  C10. The image rendered by \<open>save_mask_preview\<close> has the shape of the mask, and each of its
  pixels is a function of the class index at that place and of the palette alone: a
  non-background class index of the taxonomy gets its palette colour, or white
  (255, 255, 255) when the palette has no entry for it; class 0 (background) and every index
  outside the taxonomy stay black (0, 0, 0). No case raises, and rendering the same mask and
  palette again gives the same image.
\<close>

theorem preview_rendering:
  "save_mask_preview seg_mask palette =
     map (map (\<lambda>p. if 0 < p \<and> p < int (length label_list)
                    then (case map_of palette p of None \<Rightarrow> (255, 255, 255) | Some color \<Rightarrow> color)
                    else (0, 0, 0))) seg_mask"
proof -
  have "save_mask_preview seg_mask palette =
      map (map (\<lambda>p. pixel_after palette (enumerate 0 label_list) (0, 0, 0) p)) seg_mask"
    unfolding save_mask_preview_def zeros_like_def by (rule preview_loop_map)
  then show ?thesis by (simp only: pixel_after_taxonomy)
qed

text \<open>A rendering: class 1 has a palette entry, classes 2 and 8 have none, and 0, 9 and -1
  are not painted (the palette entry for class 0 is ignored).\<close>

lemma rendering_example:
  "save_mask_preview [[0, 1, 2], [9, - 1, 8]] [(1, (1, 2, 3)), (0, (7, 7, 7))] =
     [[(0, 0, 0), (1, 2, 3), (255, 255, 255)], [(0, 0, 0), (0, 0, 0), (255, 255, 255)]]"
  by code_simp


end
